theory Spec2Isabelle
  imports Complex_Main
begin

section \<open>Text, as the grading service handles it\<close>

text \<open>
  Python strings are sequences of code points. The text that reaches the grading service is
  modelled as a \<open>string\<close>, that is as code points below 256; in that range the decimal
  digits (\<open>\d\<close>, \<open>int\<close>) are the ASCII digits, and the characters that \<open>str.strip\<close>
  and the pattern \<open>\s\<close> treat as white space are the ones listed in \<open>py_isspace\<close>.
  Strings decoded from a JSON payload can hold any code point (through \<open>\uXXXX\<close>), so
  they are lists of code points (\<open>nat list\<close>).
\<close>

type_synonym ustring = "nat list"

definition ustr :: "string \<Rightarrow> ustring" where
  "ustr s = map of_char s"

definition dquote :: char where
  "dquote = CHR 0x22"

definition backslash :: char where
  "backslash = CHR 0x5C"

definition py_isspace :: "char \<Rightarrow> bool" where
  "py_isspace c \<longleftrightarrow>
     (let n = (of_char c :: nat)
      in (9 \<le> n \<and> n \<le> 13) \<or> (28 \<le> n \<and> n \<le> 32) \<or> n = 133 \<or> n = 160)"

definition is_digit :: "char \<Rightarrow> bool" where
  "is_digit c \<longleftrightarrow> (let n = (of_char c :: nat) in 48 \<le> n \<and> n \<le> 57)"

definition digit_val :: "char \<Rightarrow> nat" where
  "digit_val c = of_char c - 48"

text \<open>\<open>int(ds)\<close> for a non-empty string of decimal digits.\<close>

definition py_int :: "string \<Rightarrow> nat" where
  "py_int ds = foldl (\<lambda>a d. 10 * a + digit_val d) 0 ds"

text \<open>\<open>s.strip()\<close>\<close>

definition strip :: "string \<Rightarrow> string" where
  "strip s = rev (dropWhile py_isspace (rev (dropWhile py_isspace s)))"

text \<open>\<open>s.find(c)\<close> and \<open>s.rfind(c)\<close> for a one-character needle: the index, or \<open>-1\<close>.\<close>

fun find_from :: "nat \<Rightarrow> char \<Rightarrow> string \<Rightarrow> int" where
  "find_from i c [] = -1"
| "find_from i c (x # xs) = (if x = c then int i else find_from (Suc i) c xs)"

definition py_find :: "string \<Rightarrow> char \<Rightarrow> int" where
  "py_find s c = find_from 0 c s"

definition py_rfind :: "string \<Rightarrow> char \<Rightarrow> int" where
  "py_rfind s c =
     (let k = find_from 0 c (rev s) in if k = -1 then -1 else int (length s) - 1 - k)"

text \<open>\<open>s[i:j]\<close> and \<open>s[i:]\<close> for indices that are not negative.\<close>

definition slice :: "string \<Rightarrow> int \<Rightarrow> int \<Rightarrow> string" where
  "slice s i j = take (nat j - nat i) (drop (nat i) s)"

definition slice_from :: "string \<Rightarrow> int \<Rightarrow> string" where
  "slice_from s i = drop (nat i) s"

section \<open>\<open>GradingService._repair_json\<close>\<close>

text \<open>
  The stack of the source is a Python list used from its end: \<open>append\<close> adds a last
  element, \<open>stack[-1]\<close> reads it and \<open>pop\<close> removes it.
\<close>

definition repair_step :: "char list \<Rightarrow> char \<Rightarrow> char list" where
  "repair_step stack c =
     (if c = CHR ''{'' \<or> c = CHR ''['' then stack @ [c]
      else if c = CHR ''}'' \<or> c = CHR '']'' then
        (if stack \<noteq> [] then
           (if (c = CHR ''}'' \<and> last stack = CHR ''{'') \<or> (c = CHR '']'' \<and> last stack = CHR ''['')
            then butlast stack else stack)
         else stack)
      else stack)"

definition balance_scan :: "string \<Rightarrow> char list" where
  "balance_scan json_str = foldl repair_step [] json_str"

function close_remaining :: "char list \<Rightarrow> string \<Rightarrow> string" where
  "close_remaining stack json_str =
     (if stack = [] then json_str
      else
        let opener = last stack; stack' = butlast stack
        in if opener = CHR ''{'' then close_remaining stack' (json_str @ ''}'')
           else if opener = CHR ''['' then close_remaining stack' (json_str @ '']'')
           else close_remaining stack' json_str)"
  by pat_completeness auto
termination
  by (relation "measure (\<lambda>(stack, json_str). length stack)") auto

declare close_remaining.simps [simp del]

definition repair_json :: "string \<Rightarrow> string" where
  "repair_json json_str0 =
     (let json_str = strip json_str0;
          json_str = (if count_list json_str dquote mod 2 \<noteq> 0 then json_str @ [dquote] else json_str);
          stack = balance_scan json_str
      in close_remaining stack json_str)"

section \<open>JSON values and \<open>json.loads\<close>\<close>

text \<open>
  \<open>json.loads\<close> belongs to the Python library. It is modelled after the decoder of
  CPython (\<open>json/decoder.py\<close>, \<open>json/scanner.py\<close>) in its default, strict mode. A number
  is the rational it denotes: the rounding and the range of binary floating point are
  not modelled, nor is the recursion limit of the interpreter. An object is the Python
  dict built from its pairs, an association list in insertion order.
\<close>

datatype json =
    JNull
  | JBool bool
  | JNum rat
  | JNaN
  | JInf
  | JNegInf
  | JStr ustring
  | JArr "json list"
  | JObj "(ustring \<times> json) list"

datatype 'a parse = Ok 'a | DecodeError | OutOfFuel

text \<open>\<open>dict.get(key)\<close> and \<open>dict(pairs)\<close>.\<close>

definition dict_get :: "(ustring \<times> json) list \<Rightarrow> string \<Rightarrow> json option" where
  "dict_get d k = map_of d (ustr k)"

fun dict_set :: "(ustring \<times> json) list \<Rightarrow> ustring \<Rightarrow> json \<Rightarrow> (ustring \<times> json) list" where
  "dict_set [] k v = [(k, v)]"
| "dict_set ((k', v') # d) k v = (if k' = k then (k, v) # d else (k', v') # dict_set d k v)"

definition dict_of_pairs :: "(ustring \<times> json) list \<Rightarrow> (ustring \<times> json) list" where
  "dict_of_pairs pairs = foldl (\<lambda>d (k, v). dict_set d k v) [] pairs"

definition json_ws :: "char \<Rightarrow> bool" where
  "json_ws c \<longleftrightarrow> c = CHR '' '' \<or> c = CHR 0x09 \<or> c = CHR 0x0A \<or> c = CHR 0x0D"

definition skip_ws :: "string \<Rightarrow> string" where
  "skip_ws s = dropWhile json_ws s"

definition is_hex :: "char \<Rightarrow> bool" where
  "is_hex c \<longleftrightarrow>
     (let n = (of_char c :: nat)
      in (48 \<le> n \<and> n \<le> 57) \<or> (65 \<le> n \<and> n \<le> 70) \<or> (97 \<le> n \<and> n \<le> 102))"

definition hex_val :: "char \<Rightarrow> nat" where
  "hex_val c =
     (let n = (of_char c :: nat)
      in if n \<le> 57 then n - 48 else if n \<le> 70 then n - 55 else n - 87)"

definition escape_char :: "char \<Rightarrow> nat option" where
  "escape_char e =
     (if e = dquote then Some 0x22
      else if e = backslash then Some 0x5C
      else if e = CHR ''/'' then Some 0x2F
      else if e = CHR ''b'' then Some 0x08
      else if e = CHR ''f'' then Some 0x0C
      else if e = CHR ''n'' then Some 0x0A
      else if e = CHR ''r'' then Some 0x0D
      else if e = CHR ''t'' then Some 0x09
      else None)"

text \<open>
  \<open>scanstring\<close>, from the character after the opening quote: the code units of the
  string and the text after its closing quote. A control character, an unknown escape and
  a missing closing quote are decode errors (\<open>None\<close>).
\<close>

fun scan_units :: "string \<Rightarrow> (nat list \<times> string) option" where
  "scan_units [] = None"
| "scan_units (c # cs) =
     (if c = dquote then Some ([], cs)
      else if c = backslash then
        (case cs of
           [] \<Rightarrow> None
         | e # r \<Rightarrow>
             if e = CHR ''u'' then
               (if 4 \<le> length r \<and> list_all is_hex (take 4 r) then
                  (case scan_units (drop 4 r) of
                     None \<Rightarrow> None
                   | Some (us, t) \<Rightarrow>
                       Some (foldl (\<lambda>a d. 16 * a + hex_val d) 0 (take 4 r) # us, t))
                else None)
             else
               (case escape_char e of
                  None \<Rightarrow> None
                | Some n \<Rightarrow>
                    (case scan_units r of None \<Rightarrow> None | Some (us, t) \<Rightarrow> Some (n # us, t))))
      else if (of_char c :: nat) < 32 then None
      else (case scan_units cs of None \<Rightarrow> None | Some (us, t) \<Rightarrow> Some (of_char c # us, t)))"

text \<open>An escaped high surrogate followed by an escaped low surrogate is one code point.\<close>

fun join_surrogates :: "nat list \<Rightarrow> ustring" where
  "join_surrogates (h # l # us) =
     (if 0xD800 \<le> h \<and> h \<le> 0xDBFF \<and> 0xDC00 \<le> l \<and> l \<le> 0xDFFF
      then (0x10000 + (h - 0xD800) * 1024 + (l - 0xDC00)) # join_surrogates us
      else h # join_surrogates (l # us))"
| "join_surrogates us = us"

definition scanstring :: "string \<Rightarrow> (ustring \<times> string) option" where
  "scanstring s = (case scan_units s of None \<Rightarrow> None | Some (us, t) \<Rightarrow> Some (join_surrogates us, t))"

text \<open>
  The number pattern of the scanner,
  \<open>(-?(?:0|[1-9]\d*))(\.\d+)?([eE][-+]?\d+)?\<close>, matched at the start of the text.
\<close>

definition scan_int_part :: "string \<Rightarrow> (string \<times> string) option" where
  "scan_int_part s =
     (case s of
        [] \<Rightarrow> None
      | c # r \<Rightarrow>
          if c = CHR ''0'' then Some ([c], r)
          else if is_digit c then Some (takeWhile is_digit s, dropWhile is_digit s)
          else None)"

definition scan_frac :: "string \<Rightarrow> string \<times> string" where
  "scan_frac s =
     (case s of
        c # d # r \<Rightarrow>
          if c = CHR ''.'' \<and> is_digit d then (takeWhile is_digit (d # r), dropWhile is_digit (d # r))
          else ([], s)
      | _ \<Rightarrow> ([], s))"

definition scan_exp :: "string \<Rightarrow> (int \<times> string) option" where
  "scan_exp s =
     (case s of
        [] \<Rightarrow> None
      | c # r \<Rightarrow>
          if c = CHR ''e'' \<or> c = CHR ''E'' then
            (case r of
               [] \<Rightarrow> None
             | sg # r' \<Rightarrow>
                 if sg = CHR ''+'' \<or> sg = CHR ''-'' then
                   (case r' of
                      [] \<Rightarrow> None
                    | d # _ \<Rightarrow>
                        if is_digit d then
                          Some ((if sg = CHR ''-'' then - int (py_int (takeWhile is_digit r'))
                                 else int (py_int (takeWhile is_digit r'))),
                                dropWhile is_digit r')
                        else None)
                 else if is_digit sg then
                   Some (int (py_int (takeWhile is_digit r)), dropWhile is_digit r)
                 else None)
          else None)"

definition pow10 :: "int \<Rightarrow> rat" where
  "pow10 e = (if 0 \<le> e then 10 ^ nat e else 1 / 10 ^ nat (- e))"

definition scan_unsigned :: "string \<Rightarrow> (rat \<times> string) option" where
  "scan_unsigned s =
     (case scan_int_part s of
        None \<Rightarrow> None
      | Some (ds, r) \<Rightarrow>
          let (fs, r1) = scan_frac r;
              m = of_nat (py_int ds) + of_nat (py_int fs) / 10 ^ length fs
          in (case scan_exp r1 of
                None \<Rightarrow> Some (m, r1)
              | Some (e, r2) \<Rightarrow> Some (m * pow10 e, r2)))"

definition scan_number :: "string \<Rightarrow> (rat \<times> string) option" where
  "scan_number s =
     (case s of
        [] \<Rightarrow> None
      | c # r \<Rightarrow>
          if c = CHR ''-'' then
            (case scan_unsigned r of None \<Rightarrow> None | Some (x, t) \<Rightarrow> Some (- x, t))
          else scan_unsigned s)"

definition starts_with :: "string \<Rightarrow> string \<Rightarrow> bool" where
  "starts_with p s \<longleftrightarrow> take (length p) s = p"

text \<open>
  The loops of \<open>JSONArray\<close> and \<open>JSONObject\<close>. One turn of a loop either ends the
  container (\<open>Done\<close>, with its result) or goes on with the text left and the elements
  read so far (\<open>More\<close>). \<open>scan\<close> is \<open>scan_once\<close>, the scanner of one value.
\<close>

datatype ('a, 'b) turn = Done 'a | More 'b

type_synonym scanner = "string \<Rightarrow> (json \<times> string) parse"

definition array_turn :: "scanner \<Rightarrow> string \<Rightarrow> json list \<Rightarrow> ((json \<times> string) parse, string \<times> json list) turn" where
  "array_turn scan s vals =
     (case scan s of
        DecodeError \<Rightarrow> Done DecodeError
      | OutOfFuel \<Rightarrow> Done OutOfFuel
      | Ok (v, r) \<Rightarrow>
          (case skip_ws r of
             [] \<Rightarrow> Done DecodeError
           | c # r1 \<Rightarrow>
               if c = CHR '']'' then Done (Ok (JArr (vals @ [v]), r1))
               else if c \<noteq> CHR '','' then Done DecodeError
               else More (skip_ws r1, vals @ [v])))"

primrec array_items :: "scanner \<Rightarrow> nat \<Rightarrow> string \<Rightarrow> json list \<Rightarrow> (json \<times> string) parse" where
  "array_items scan 0 s vals = OutOfFuel"
| "array_items scan (Suc k) s vals =
     (case array_turn scan s vals of
        Done res \<Rightarrow> res
      | More (s', vals') \<Rightarrow> array_items scan k s' vals')"

text \<open>A turn of the object loop starts after the opening quote of a key.\<close>

definition object_turn :: "scanner \<Rightarrow> string \<Rightarrow> (ustring \<times> json) list \<Rightarrow>
    ((json \<times> string) parse, string \<times> (ustring \<times> json) list) turn" where
  "object_turn scan s pairs =
     (case scanstring s of
        None \<Rightarrow> Done DecodeError
      | Some (key, r) \<Rightarrow>
          (case skip_ws r of
             [] \<Rightarrow> Done DecodeError
           | c # r1 \<Rightarrow>
               if c \<noteq> CHR '':'' then Done DecodeError
               else
                 (case scan (skip_ws r1) of
                    DecodeError \<Rightarrow> Done DecodeError
                  | OutOfFuel \<Rightarrow> Done OutOfFuel
                  | Ok (v, r2) \<Rightarrow>
                      (case skip_ws r2 of
                         [] \<Rightarrow> Done DecodeError
                       | c2 # r3 \<Rightarrow>
                           if c2 = CHR ''}'' then Done (Ok (JObj (dict_of_pairs (pairs @ [(key, v)])), r3))
                           else if c2 \<noteq> CHR '','' then Done DecodeError
                           else
                             (case skip_ws r3 of
                                [] \<Rightarrow> Done DecodeError
                              | c3 # r4 \<Rightarrow>
                                  if c3 = dquote then More (r4, pairs @ [(key, v)])
                                  else Done DecodeError)))))"

primrec object_pairs :: "scanner \<Rightarrow> nat \<Rightarrow> string \<Rightarrow> (ustring \<times> json) list \<Rightarrow> (json \<times> string) parse" where
  "object_pairs scan 0 s pairs = OutOfFuel"
| "object_pairs scan (Suc k) s pairs =
     (case object_turn scan s pairs of
        Done res \<Rightarrow> res
      | More (s', pairs') \<Rightarrow> object_pairs scan k s' pairs')"

text \<open>
  \<open>scan_once\<close> at the start of the text \<open>s\<close>; \<open>scan\<close> scans the values nested in an
  object or an array. A loop takes fewer turns than the text after the opening bracket
  has characters, so the bound given to it is never reached.
\<close>

definition scan_value :: "scanner \<Rightarrow> scanner" where
  "scan_value scan s =
     (case s of
        [] \<Rightarrow> DecodeError
      | c # r \<Rightarrow>
          if c = dquote then
            (case scanstring r of None \<Rightarrow> DecodeError | Some (str, t) \<Rightarrow> Ok (JStr str, t))
          else if c = CHR ''{'' then
            (case skip_ws r of
               [] \<Rightarrow> DecodeError
             | c' # r' \<Rightarrow>
                 if c' = CHR ''}'' then Ok (JObj [], r')
                 else if c' = dquote then object_pairs scan (Suc (length r)) r' []
                 else DecodeError)
          else if c = CHR ''['' then
            (case skip_ws r of
               [] \<Rightarrow> DecodeError
             | c' # r' \<Rightarrow>
                 if c' = CHR '']'' then Ok (JArr [], r')
                 else array_items scan (Suc (length r)) (c' # r') [])
          else if starts_with ''null'' s then Ok (JNull, drop 4 s)
          else if starts_with ''true'' s then Ok (JBool True, drop 4 s)
          else if starts_with ''false'' s then Ok (JBool False, drop 5 s)
          else if starts_with ''NaN'' s then Ok (JNaN, drop 3 s)
          else if starts_with ''Infinity'' s then Ok (JInf, drop 8 s)
          else if starts_with ''-Infinity'' s then Ok (JNegInf, drop 9 s)
          else
            (case scan_number s of None \<Rightarrow> DecodeError | Some (x, t) \<Rightarrow> Ok (JNum x, t)))"

text \<open>The argument of \<open>scan_once\<close> bounds the depth of nesting.\<close>

primrec scan_once :: "nat \<Rightarrow> scanner" where
  "scan_once 0 = (\<lambda>s. OutOfFuel)"
| "scan_once (Suc n) = scan_value (scan_once n)"

text \<open>
  \<open>json.loads(s)\<close>: \<open>Some\<close> the value, or \<open>None\<close> for \<open>JSONDecodeError\<close>. White space
  may surround the value; anything else after it is the error "Extra data". A text
  cannot nest deeper than its length, so the bound is never reached (lemma
  \<open>json_loads_fuel\<close> below) and \<open>OutOfFuel\<close> stands for no behaviour of the decoder.
\<close>

definition json_fuel :: "string \<Rightarrow> nat" where
  "json_fuel s = Suc (length s)"

definition json_loads :: "string \<Rightarrow> json option" where
  "json_loads s =
     (case scan_once (json_fuel s) (skip_ws s) of
        Ok (v, r) \<Rightarrow> if skip_ws r = [] then Some v else None
      | DecodeError \<Rightarrow> None
      | OutOfFuel \<Rightarrow> None)"

section \<open>Grading results and errors\<close>

text \<open>
  The exceptions that the services can meet. The text of a \<open>ValueError\<close> is given
  by the source; the text of the others is written by the interpreter and is not
  modelled (\<open>InterpreterText\<close>).
\<close>

datatype exn =
  JSONDecodeError | ValueError string | TypeError | AttributeError | ZeroDivisionError | KeyError

datatype errtext = Msg string | InterpreterText exn

fun str_exn :: "exn \<Rightarrow> errtext" where
  "str_exn (ValueError m) = Msg m"
| "str_exn e = InterpreterText e"

text \<open>
  The feedback of a result is a Python string. The string merged by
  \<open>_combine_feedback\<close> is kept as the list of its sections (their rendering needs
  \<open>str()\<close> of arbitrary values), and a report of an interpreter-written text is kept
  as such; every other feedback is the text itself.
\<close>

datatype fb_part =
    Overall ustring
  | Strengths "json list"
  | Improvements "json list"
  | Justification json

datatype feedback =
    Text string
  | Merged "fb_part list"
  | ErrorReport exn

record grading_result =
  total_score :: json
  percentage :: json
  feedback :: feedback
  criteria_scores :: json
  criteria_explanations :: "json option"
  questions :: json
  strengths :: json
  areas_for_improvement :: json
  grade_justification :: json

definition error_feedback :: "errtext \<Rightarrow> feedback" where
  "error_feedback m =
     (case m of
        Msg t \<Rightarrow> Text (''Error during grading: '' @ t)
      | InterpreterText e \<Rightarrow> ErrorReport e)"

definition create_error_result :: "errtext \<Rightarrow> grading_result" where
  "create_error_result error_message =
     \<lparr> total_score = JNum 0,
       percentage = JNum 0,
       feedback = error_feedback error_message,
       criteria_scores = JObj [],
       criteria_explanations = None,
       questions = JArr [],
       strengths = JArr [],
       areas_for_improvement = JArr [],
       grade_justification = JStr (ustr ''Grading failed due to technical error.'') \<rparr>"

section \<open>\<open>GradingService._fallback_text_parsing\<close>\<close>

text \<open>
  \<open>re.search(r'(?:score|marks?)[:\s]*(\d+)(?:/(\d+))?', response, re.IGNORECASE)\<close>:
  the groups 1 and 2 of the leftmost match. With \<open>IGNORECASE\<close> a lower-case letter of the
  pattern matches itself and its upper-case form.
\<close>

definition ci_eq :: "char \<Rightarrow> char \<Rightarrow> bool" where
  "ci_eq p c \<longleftrightarrow>
     c = p \<or> (let n = (of_char c :: nat) in 65 \<le> n \<and> n \<le> 90 \<and> of_char p = n + 32)"

definition ci_prefix :: "string \<Rightarrow> string \<Rightarrow> bool" where
  "ci_prefix p s \<longleftrightarrow> list_all2 ci_eq p (take (length p) s)"

definition match_tail :: "string \<Rightarrow> (string \<times> string option) option" where
  "match_tail s =
     (let r1 = dropWhile (\<lambda>c. c = CHR '':'' \<or> py_isspace c) s;
          g1 = takeWhile is_digit r1;
          r2 = dropWhile is_digit r1
      in if g1 = [] then None
         else
           (case r2 of
              [] \<Rightarrow> Some (g1, None)
            | c # r3 \<Rightarrow>
                if c = CHR ''/'' \<and> takeWhile is_digit r3 \<noteq> [] then Some (g1, Some (takeWhile is_digit r3))
                else Some (g1, None)))"

definition match_here :: "string \<Rightarrow> (string \<times> string option) option" where
  "match_here s =
     (if ci_prefix ''score'' s then match_tail (drop 5 s)
      else if ci_prefix ''mark'' s then
        (if ci_prefix ''s'' (drop 4 s) then
           (case match_tail (drop 5 s) of
              Some m \<Rightarrow> Some m
            | None \<Rightarrow> match_tail (drop 4 s))
         else match_tail (drop 4 s))
      else None)"

fun re_search :: "string \<Rightarrow> (string \<times> string option) option" where
  "re_search [] = match_here []"
| "re_search (c # cs) =
     (case match_here (c # cs) of
        Some m \<Rightarrow> Some m
      | None \<Rightarrow> re_search cs)"

text \<open>The score computed inside the \<open>try\<close> block; the division can raise.\<close>

definition fallback_score :: "string \<Rightarrow> int \<Rightarrow> exn + rat" where
  "fallback_score response total_marks =
     (case re_search response of
        Some (g1, g2) \<Rightarrow>
          let score = int (py_int g1);
              max_score = (case g2 of Some d \<Rightarrow> int (py_int d) | None \<Rightarrow> total_marks)
          in if max_score \<noteq> total_marks then
               (if max_score = 0 then Inl ZeroDivisionError
                else Inr (min ((of_int score / of_int max_score) * of_int total_marks) (of_int total_marks)))
             else Inr (min (of_int score) (of_int total_marks))
      | None \<Rightarrow> Inr 0)"

definition fallback_text_parsing :: "string \<Rightarrow> int \<Rightarrow> grading_result" where
  "fallback_text_parsing response total_marks =
     (case fallback_score response total_marks of
        Inr score \<Rightarrow>
          \<lparr> total_score = JNum score,
            percentage = JNum (if total_marks > 0 then (score / of_int total_marks) * 100 else 0),
            feedback = Text response,
            criteria_scores = JObj [],
            criteria_explanations = None,
            questions = JArr [],
            strengths = JArr [],
            areas_for_improvement = JArr [],
            grade_justification = JStr (ustr ''Grading performed using fallback text analysis.'') \<rparr>
      | Inl e \<Rightarrow> create_error_result (Msg ''Failed to parse grading response''))"

section \<open>\<open>GradingService._combine_feedback\<close> and \<open>_parse_grading_response\<close>\<close>

text \<open>Truth value of a Python object, and the elements that a \<open>for\<close> loop takes from it.\<close>

fun truthy :: "json \<Rightarrow> bool" where
  "truthy JNull = False"
| "truthy (JBool b) = b"
| "truthy (JNum x) = (x \<noteq> 0)"
| "truthy JNaN = True"
| "truthy JInf = True"
| "truthy JNegInf = True"
| "truthy (JStr s) = (s \<noteq> [])"
| "truthy (JArr xs) = (xs \<noteq> [])"
| "truthy (JObj d) = (d \<noteq> [])"

fun py_iter :: "json \<Rightarrow> exn + json list" where
  "py_iter (JArr xs) = Inr xs"
| "py_iter (JStr s) = Inr (map (\<lambda>c. JStr [c]) s)"
| "py_iter (JObj d) = Inr (map (\<lambda>kv. JStr (fst kv)) d)"
| "py_iter v = Inl TypeError"

definition dict_get_default :: "(ustring \<times> json) list \<Rightarrow> string \<Rightarrow> json \<Rightarrow> json" where
  "dict_get_default d k dflt = (case dict_get d k of Some v \<Rightarrow> v | None \<Rightarrow> dflt)"

text \<open>
  \<open>grading_data.get(k)\<close> is \<open>None\<close>, which is false, when the key is absent. The part
  appended for \<open>overall_feedback\<close> is the value itself, and \<open>join\<close> raises
  \<open>TypeError\<close> when it is not a string.
\<close>

definition get_truthy :: "(ustring \<times> json) list \<Rightarrow> string \<Rightarrow> json option" where
  "get_truthy d k = (case dict_get d k of Some v \<Rightarrow> if truthy v then Some v else None | None \<Rightarrow> None)"

definition overall_part :: "(ustring \<times> json) list \<Rightarrow> exn + fb_part list" where
  "overall_part d =
     (case get_truthy d ''overall_feedback'' of
        None \<Rightarrow> Inr []
      | Some (JStr s) \<Rightarrow> Inr [Overall s]
      | Some v \<Rightarrow> Inl TypeError)"

definition list_part :: "(json list \<Rightarrow> fb_part) \<Rightarrow> (ustring \<times> json) list \<Rightarrow> string \<Rightarrow> exn + fb_part list" where
  "list_part mk d k =
     (case get_truthy d k of
        None \<Rightarrow> Inr []
      | Some v \<Rightarrow> (case py_iter v of Inl e \<Rightarrow> Inl e | Inr items \<Rightarrow> Inr [mk items]))"

definition justification_part :: "(ustring \<times> json) list \<Rightarrow> fb_part list" where
  "justification_part d =
     (case get_truthy d ''grade_justification'' of None \<Rightarrow> [] | Some v \<Rightarrow> [Justification v])"

definition combine_feedback :: "(ustring \<times> json) list \<Rightarrow> exn + fb_part list" where
  "combine_feedback grading_data =
     (case overall_part grading_data of
        Inl e \<Rightarrow> Inl e
      | Inr p1 \<Rightarrow>
          (case list_part Strengths grading_data ''strengths'' of
             Inl e \<Rightarrow> Inl e
           | Inr p2 \<Rightarrow>
               (case list_part Improvements grading_data ''areas_for_improvement'' of
                  Inl e \<Rightarrow> Inl e
                | Inr p3 \<Rightarrow> Inr (p1 @ p2 @ p3 @ justification_part grading_data))))"

text \<open>
  \<open>min(v, total_marks)\<close> returns \<open>total_marks\<close> when \<open>total_marks < v\<close> and \<open>v\<close>
  otherwise; the comparison raises \<open>TypeError\<close> when \<open>v\<close> is not a number.
  \<open>True\<close> and \<open>False\<close> count as 1 and 0.
\<close>

fun py_min :: "json \<Rightarrow> int \<Rightarrow> exn + json" where
  "py_min (JNum x) t = Inr (if of_int t < x then JNum (of_int t) else JNum x)"
| "py_min (JBool b) t = Inr (if t < (if b then 1 else 0) then JNum (of_int t) else JBool b)"
| "py_min JNaN t = Inr JNaN"
| "py_min JInf t = Inr (JNum (of_int t))"
| "py_min JNegInf t = Inr JNegInf"
| "py_min v t = Inl TypeError"

text \<open>\<open>v > 0\<close>\<close>

fun py_positive :: "json \<Rightarrow> exn + bool" where
  "py_positive (JNum x) = Inr (0 < x)"
| "py_positive (JBool b) = Inr b"
| "py_positive JNaN = Inr False"
| "py_positive JInf = Inr True"
| "py_positive JNegInf = Inr False"
| "py_positive v = Inl TypeError"

text \<open>\<open>(v / total_marks) * 100\<close>\<close>

fun py_percent :: "json \<Rightarrow> int \<Rightarrow> exn + json" where
  "py_percent (JNum x) t = (if t = 0 then Inl ZeroDivisionError else Inr (JNum ((x / of_int t) * 100)))"
| "py_percent (JBool b) t =
     (if t = 0 then Inl ZeroDivisionError else Inr (JNum (((if b then 1 else 0) / of_int t) * 100)))"
| "py_percent JNaN t = (if t = 0 then Inl ZeroDivisionError else Inr JNaN)"
| "py_percent JInf t = (if t = 0 then Inl ZeroDivisionError else Inr (if 0 < t then JInf else JNegInf))"
| "py_percent JNegInf t = (if t = 0 then Inl ZeroDivisionError else Inr (if 0 < t then JNegInf else JInf))"
| "py_percent v t = Inl TypeError"

text \<open>
  The part of \<open>_parse_grading_response\<close> after the parse: the dict
  \<open>normalized_result\<close> and the recalculation of the percentage.
\<close>

definition normalize_result :: "(ustring \<times> json) list \<Rightarrow> int \<Rightarrow> exn + grading_result" where
  "normalize_result grading_data total_marks =
     (case py_min (dict_get_default grading_data ''total_score'' (JNum 0)) total_marks of
        Inl e \<Rightarrow> Inl e
      | Inr score \<Rightarrow>
          (case combine_feedback grading_data of
             Inl e \<Rightarrow> Inl e
           | Inr parts \<Rightarrow>
               let normalized_result =
                 \<lparr> total_score = score,
                   percentage = dict_get_default grading_data ''percentage'' (JNum 0),
                   feedback = Merged parts,
                   criteria_scores = dict_get_default grading_data ''criteria_scores'' (JObj []),
                   criteria_explanations = Some (dict_get_default grading_data ''criteria_explanations'' (JObj [])),
                   questions = dict_get_default grading_data ''questions'' (JArr []),
                   strengths = dict_get_default grading_data ''strengths'' (JArr []),
                   areas_for_improvement = dict_get_default grading_data ''areas_for_improvement'' (JArr []),
                   grade_justification = dict_get_default grading_data ''grade_justification'' (JStr []) \<rparr>
               in (case py_positive score of
                     Inl e \<Rightarrow> Inl e
                   | Inr pos \<Rightarrow>
                       if pos then
                         (case py_percent score total_marks of
                            Inl e \<Rightarrow> Inl e
                          | Inr p \<Rightarrow> Inr (normalized_result\<lparr>percentage := p\<rparr>))
                       else Inr normalized_result)))"

text \<open>\<open>grading_data.get\<close> needs a dict; \<open>json.loads\<close> can return any value.\<close>

definition normalize_value :: "json \<Rightarrow> int \<Rightarrow> exn + grading_result" where
  "normalize_value grading_data total_marks =
     (case grading_data of
        JObj d \<Rightarrow> normalize_result d total_marks
      | _ \<Rightarrow> Inl AttributeError)"

text \<open>The text between the first opening brace and the last closing brace.\<close>

definition json_content_of :: "string \<Rightarrow> int \<Rightarrow> string" where
  "json_content_of raw_text json_start =
     (let json_end = py_rfind raw_text (CHR ''}'')
      in if json_end \<noteq> -1 \<and> json_end > json_start then slice raw_text json_start (json_end + 1)
         else slice_from raw_text json_start)"

text \<open>The \<open>try\<close> block of \<open>_parse_grading_response\<close>, with what it raises.\<close>

definition parse_body :: "string \<Rightarrow> int \<Rightarrow> exn + grading_result" where
  "parse_body response total_marks =
     (let raw_text = strip response;
          json_start = py_find raw_text (CHR ''{'')
      in if json_start = -1 then Inl (ValueError (''Gemini did not return JSON:'' @ [CHR 0x0A] @ raw_text))
         else
           let json_content = json_content_of raw_text json_start
           in (case json_loads json_content of
                 Some grading_data \<Rightarrow> normalize_value grading_data total_marks
               | None \<Rightarrow>
                   (case json_loads (repair_json json_content) of
                      Some grading_data \<Rightarrow> normalize_value grading_data total_marks
                    | None \<Rightarrow> Inl JSONDecodeError)))"

text \<open>
  \<open>_parse_grading_response(response, total_marks, custom_criteria)\<close>; the source does
  not use \<open>custom_criteria\<close>. A \<open>JSONDecodeError\<close> goes to the fallback, any other
  exception to an error result.
\<close>

definition parse_grading_response :: "string \<Rightarrow> int \<Rightarrow> grading_result" where
  "parse_grading_response response total_marks =
     (case parse_body response total_marks of
        Inr normalized_result \<Rightarrow> normalized_result
      | Inl JSONDecodeError \<Rightarrow> fallback_text_parsing response total_marks
      | Inl e \<Rightarrow> create_error_result (str_exn e))"

section \<open>\<open>AnalyticsService\<close>: the dataset\<close>

text \<open>
  A grading record as the analytics service reads it: the keys it looks up with
  \<open>get\<close>, each present or absent, and the list of question dicts. Numbers are reals:
  binary floating point is not modelled.
\<close>

record question =
  q_attempted :: "bool option"
  q_score :: "real option"
  q_max_score :: "real option"

record result =
  r_filename :: "string option"
  r_total_marks :: "real option"
  r_awarded_marks :: "real option"
  r_percentage :: "real option"
  r_questions :: "question list option"

definition get_or :: "'a option \<Rightarrow> 'a \<Rightarrow> 'a" where
  "get_or v dflt = (case v of Some x \<Rightarrow> x | None \<Rightarrow> dflt)"

text \<open>
  The data frame: the column labels in the order in which \<open>pd.DataFrame(data)\<close> meets
  them, and the rows, one dict each; a column that a row lacks holds NaN there.
  \<open>Q_attempted i\<close> is the column \<open>question_i_attempted\<close>, and so on.
\<close>

datatype column =
    Filename | Total_marks | Awarded_marks | Percentage
  | Q_attempted nat | Q_score nat | Q_max_score nat | Q_percentage nat

datatype cell = Str string | Num real | Bool bool

type_synonym row = "(column \<times> cell) list"

record dataframe =
  columns :: "column list"
  rows :: "row list"

fun add_keys :: "column list \<Rightarrow> column list \<Rightarrow> column list" where
  "add_keys cols [] = cols"
| "add_keys cols (k # ks) = add_keys (if k \<in> set cols then cols else cols @ [k]) ks"

definition DataFrame :: "row list \<Rightarrow> dataframe" where
  "DataFrame data = \<lparr> columns = foldl add_keys [] (map (map fst) data), rows = data \<rparr>"

definition empty_frame :: dataframe where
  "empty_frame = \<lparr> columns = [], rows = [] \<rparr>"

definition df_empty :: "dataframe \<Rightarrow> bool" where
  "df_empty d \<longleftrightarrow> columns d = [] \<or> rows d = []"

text \<open>\<open>df[col]\<close> raises \<open>KeyError\<close> for a label that is not a column.\<close>

definition df_col :: "dataframe \<Rightarrow> column \<Rightarrow> exn + cell option list" where
  "df_col d c = (if c \<in> set (columns d) then Inr (map (\<lambda>r. map_of r c) (rows d)) else Inl KeyError)"

text \<open>
  \<open>Series.sum()\<close> skips NaN and counts \<open>True\<close> as 1; numbers read from cells; a string
  where a number is needed raises \<open>TypeError\<close>.
\<close>

fun cell_num :: "cell \<Rightarrow> exn + real" where
  "cell_num (Num x) = Inr x"
| "cell_num (Bool b) = Inr (if b then 1 else 0)"
| "cell_num (Str s) = Inl TypeError"

fun nums_notna :: "cell option list \<Rightarrow> exn + real list" where
  "nums_notna [] = Inr []"
| "nums_notna (None # cs) = nums_notna cs"
| "nums_notna (Some c # cs) =
     (case cell_num c of
        Inl e \<Rightarrow> Inl e
      | Inr x \<Rightarrow> (case nums_notna cs of Inl e \<Rightarrow> Inl e | Inr xs \<Rightarrow> Inr (x # xs)))"

definition series_sum :: "cell option list \<Rightarrow> exn + real" where
  "series_sum cs = (case nums_notna cs of Inl e \<Rightarrow> Inl e | Inr xs \<Rightarrow> Inr (sum_list xs))"

text \<open>\<open>_create_dataframe\<close>\<close>

fun question_cells :: "nat \<Rightarrow> question list \<Rightarrow> row" where
  "question_cells i [] = []"
| "question_cells i (q # qs) =
     [ (Q_attempted i, Bool (get_or (q_attempted q) False)),
       (Q_score i, Num (get_or (q_score q) 0)),
       (Q_max_score i, Num (get_or (q_max_score q) 0)),
       (Q_percentage i,
          Num (if get_or (q_max_score q) 0 > 0
               then (get_or (q_score q) 0 / get_or (q_max_score q) 1) * 100 else 0)) ]
     @ question_cells (Suc i) qs"

definition student_data :: "result \<Rightarrow> row" where
  "student_data r =
     [ (Filename, Str (get_or (r_filename r) [])),
       (Total_marks, Num (get_or (r_total_marks r) 0)),
       (Awarded_marks, Num (get_or (r_awarded_marks r) 0)),
       (Percentage, Num (get_or (r_percentage r) 0)) ]
     @ question_cells 1 (get_or (r_questions r) [])"

definition create_dataframe :: "result list \<Rightarrow> dataframe" where
  "create_dataframe rs = (if rs = [] then empty_frame else DataFrame (map student_data rs))"

text \<open>The service object: \<open>__init__\<close> and \<open>load_results\<close>.\<close>

record analytics_service =
  results :: "result list"
  df :: "dataframe option"

definition init_service :: analytics_service where
  "init_service = \<lparr> results = [], df = None \<rparr>"

definition load_results :: "analytics_service \<Rightarrow> result list \<Rightarrow> analytics_service" where
  "load_results self rs = \<lparr> results = rs, df = Some (create_dataframe rs) \<rparr>"

text \<open>The guard \<open>self.df is None or self.df.empty\<close>.\<close>

definition no_data :: "analytics_service \<Rightarrow> bool" where
  "no_data self \<longleftrightarrow> (case df self of None \<Rightarrow> True | Some d \<Rightarrow> df_empty d)"

definition frame :: "analytics_service \<Rightarrow> dataframe" where
  "frame self = (case df self of Some d \<Rightarrow> d | None \<Rightarrow> empty_frame)"

fun is_attempted_column :: "column \<Rightarrow> bool" where
  "is_attempted_column (Q_attempted i) = True"
| "is_attempted_column c = False"

definition get_max_questions :: "analytics_service \<Rightarrow> nat" where
  "get_max_questions self =
     (if no_data self then 0 else length (filter is_attempted_column (columns (frame self))))"

section \<open>\<open>AnalyticsService\<close>: the queries\<close>

text \<open>\<open>int(x)\<close> of a number: truncation towards zero.\<close>

definition py_trunc :: "real \<Rightarrow> int" where
  "py_trunc x = (if 0 \<le> x then \<lfloor>x\<rfloor> else \<lceil>x\<rceil>)"

record attempts =
  attempted_count :: int
  total_students :: nat
  attempts_percentage :: real

definition analyze_question_attempts :: "analytics_service \<Rightarrow> nat \<Rightarrow> exn + attempts" where
  "analyze_question_attempts self question_number =
     (if no_data self then
        Inr \<lparr> attempted_count = 0, total_students = 0, attempts_percentage = 0 \<rparr>
      else if Q_attempted question_number \<notin> set (columns (frame self)) then
        Inr \<lparr> attempted_count = 0, total_students = length (rows (frame self)),
              attempts_percentage = 0 \<rparr>
      else
        (case df_col (frame self) (Q_attempted question_number) of
           Inl e \<Rightarrow> Inl e
         | Inr col \<Rightarrow>
             (case series_sum col of
                Inl e \<Rightarrow> Inl e
              | Inr count \<Rightarrow>
                  (let total = length (rows (frame self))
                   in Inr \<lparr> attempted_count = py_trunc count,
                            total_students = total,
                            attempts_percentage =
                              (if total > 0 then (count / of_nat total) * 100 else 0) \<rparr>))))"

text \<open>
  The entries of \<open>attempts_data\<close> and \<open>skip_data\<close>, and the results of the two queries
  built from them: the question, its count (\<open>attempts\<close> or \<open>skipped_count\<close>) and its
  percentage.
\<close>

record question_stat =
  question_number :: nat
  stat_count :: int
  stat_percentage :: real

definition no_question :: question_stat where
  "no_question = \<lparr> question_number = 0, stat_count = 0, stat_percentage = 0 \<rparr>"

text \<open>A loop that appends one entry per index and stops at the first exception.\<close>

fun collect :: "(nat \<Rightarrow> exn + 'a) \<Rightarrow> nat list \<Rightarrow> exn + 'a list" where
  "collect f [] = Inr []"
| "collect f (i # is) =
     (case f i of
        Inl e \<Rightarrow> Inl e
      | Inr x \<Rightarrow> (case collect f is of Inl e \<Rightarrow> Inl e | Inr xs \<Rightarrow> Inr (x # xs)))"

text \<open>\<open>max(xs, key=k)\<close> for a non-empty list: the first element whose key is greatest.\<close>

fun max_from :: "('a \<Rightarrow> int) \<Rightarrow> 'a \<Rightarrow> 'a list \<Rightarrow> 'a" where
  "max_from k best [] = best"
| "max_from k best (x # xs) = max_from k (if k x > k best then x else best) xs"

definition attempt_entry :: "analytics_service \<Rightarrow> nat \<Rightarrow> exn + question_stat" where
  "attempt_entry self i =
     (case analyze_question_attempts self i of
        Inl e \<Rightarrow> Inl e
      | Inr analysis \<Rightarrow>
          Inr \<lparr> question_number = i, stat_count = attempted_count analysis,
                stat_percentage = attempts_percentage analysis \<rparr>)"

definition get_most_attempted_question :: "analytics_service \<Rightarrow> exn + question_stat" where
  "get_most_attempted_question self =
     (if no_data self then Inr no_question
      else
        (let max_questions = get_max_questions self
         in if max_questions = 0 then Inr no_question
            else
              (case collect (attempt_entry self) [1 ..< max_questions + 1] of
                 Inl e \<Rightarrow> Inl e
               | Inr [] \<Rightarrow> Inr no_question
               | Inr (x # xs) \<Rightarrow> Inr (max_from stat_count x xs))))"

definition skip_entry :: "analytics_service \<Rightarrow> nat \<Rightarrow> exn + question_stat" where
  "skip_entry self i =
     (case analyze_question_attempts self i of
        Inl e \<Rightarrow> Inl e
      | Inr analysis \<Rightarrow>
          (let skipped_count = int (total_students analysis) - attempted_count analysis
           in Inr \<lparr> question_number = i, stat_count = skipped_count,
                    stat_percentage =
                      (if total_students analysis > 0
                       then (of_int skipped_count / of_nat (total_students analysis)) * 100
                       else 0) \<rparr>))"

definition get_most_skipped_question :: "analytics_service \<Rightarrow> exn + question_stat" where
  "get_most_skipped_question self =
     (if no_data self then Inr no_question
      else
        (let max_questions = get_max_questions self
         in if max_questions = 0 then Inr no_question
            else
              (case collect (skip_entry self) [1 ..< max_questions + 1] of
                 Inl e \<Rightarrow> Inl e
               | Inr [] \<Rightarrow> Inr no_question
               | Inr (x # xs) \<Rightarrow> Inr (max_from stat_count x xs))))"

definition column_sum_if_present :: "analytics_service \<Rightarrow> nat \<Rightarrow> exn + real" where
  "column_sum_if_present self i =
     (if Q_attempted i \<in> set (columns (frame self)) then
        (case df_col (frame self) (Q_attempted i) of
           Inl e \<Rightarrow> Inl e
         | Inr col \<Rightarrow> series_sum col)
      else Inr 0)"

definition get_average_questions_attempted :: "analytics_service \<Rightarrow> exn + real" where
  "get_average_questions_attempted self =
     (if no_data self then Inr 0
      else
        let max_questions = get_max_questions self
        in if max_questions = 0 then Inr 0
           else
             (case collect (column_sum_if_present self) [1 ..< max_questions + 1] of
                Inl e \<Rightarrow> Inl e
              | Inr col_sums \<Rightarrow>
                  (let total_attempts = sum_list col_sums
                   in Inr (if length (rows (frame self)) > 0
                           then total_attempts / of_nat (length (rows (frame self))) else 0))))"

text \<open>\<open>np.mean\<close>, \<open>np.median\<close> and \<open>np.std\<close> of a non-empty list.\<close>

definition mean :: "real list \<Rightarrow> real" where
  "mean xs = sum_list xs / of_nat (length xs)"

definition median :: "real list \<Rightarrow> real" where
  "median xs =
     (let s = sort xs; n = length xs
      in if odd n then s ! (n div 2) else (s ! (n div 2 - 1) + s ! (n div 2)) / 2)"

definition std :: "real list \<Rightarrow> real" where
  "std xs = sqrt (mean (map (\<lambda>x. (x - mean xs)\<^sup>2) xs))"

record distribution =
  grades :: "(string \<times> nat) list"
  average :: real
  dist_median :: real
  std_dev :: real

definition grade_ranges :: "(string \<times> real \<times> real) list" where
  "grade_ranges =
     [ (''A (90-100%)'', 90, 100),
       (''B (80-89%)'', 80, 89),
       (''C (70-79%)'', 70, 79),
       (''D (60-69%)'', 60, 69),
       (''F (0-59%)'', 0, 59) ]"

definition grade_counts :: "real list \<Rightarrow> (string \<times> nat) list" where
  "grade_counts percentages =
     map (\<lambda>(grade, min_val, max_val).
            (grade, length (filter (\<lambda>p. min_val \<le> p \<and> p \<le> max_val) percentages)))
         grade_ranges"

text \<open>
  \<open>df['percentage'].tolist()\<close>, as numbers. A frame built by \<open>_create_dataframe\<close> has
  no NaN in this column; the arithmetic of NaN is not modelled, and a NaN here is dropped.
\<close>

definition percentages_of :: "dataframe \<Rightarrow> exn + real list" where
  "percentages_of d = (case df_col d Percentage of Inl e \<Rightarrow> Inl e | Inr col \<Rightarrow> nums_notna col)"

definition get_grade_distribution :: "analytics_service \<Rightarrow> exn + distribution" where
  "get_grade_distribution self =
     (if no_data self then Inr \<lparr> grades = [], average = 0, dist_median = 0, std_dev = 0 \<rparr>
      else
        (case percentages_of (frame self) of
           Inl e \<Rightarrow> Inl e
         | Inr percentages \<Rightarrow>
             Inr \<lparr> grades = grade_counts percentages,
                   average = (if percentages \<noteq> [] then mean percentages else 0),
                   dist_median = (if percentages \<noteq> [] then median percentages else 0),
                   std_dev = (if percentages \<noteq> [] then std percentages else 0) \<rparr>))"

text \<open>
  The question percentages of a row: for \<open>i\<close> from 1 to \<open>max_questions\<close>, the value of
  \<open>question_i_percentage\<close> when that label is a column and the value is not NaN.
\<close>

definition question_percentages :: "dataframe \<Rightarrow> nat \<Rightarrow> row \<Rightarrow> exn + real list" where
  "question_percentages d max_questions r =
     nums_notna (map (\<lambda>i. if Q_percentage i \<in> set (columns d) then map_of r (Q_percentage i) else None)
                     [1 ..< max_questions + 1])"

text \<open>\<open>row['filename']\<close>\<close>

definition row_filename :: "dataframe \<Rightarrow> row \<Rightarrow> exn + cell option" where
  "row_filename d r = (if Filename \<in> set (columns d) then Inr (map_of r Filename) else Inl KeyError)"

record consistent =
  c_filename :: "cell option"
  average_score :: real
  std_deviation :: real
  question_scores :: "real list"

definition consistent_row :: "dataframe \<Rightarrow> nat \<Rightarrow> row \<Rightarrow> exn + consistent list" where
  "consistent_row d max_questions r =
     (case question_percentages d max_questions r of
        Inl e \<Rightarrow> Inl e
      | Inr qp \<Rightarrow>
          if length qp \<ge> 2 then
            (let std_dev = std qp; avg_score = mean qp
             in if std_dev < 15 \<and> avg_score > 50 then
                  (case row_filename d r of
                     Inl e \<Rightarrow> Inl e
                   | Inr name \<Rightarrow>
                       Inr [\<lparr> c_filename = name, average_score = avg_score,
                              std_deviation = std_dev, question_scores = qp \<rparr>])
                else Inr [])
          else Inr [])"

text \<open>The loop over the rows: each row appends at most one entry.\<close>

fun collect_rows :: "(row \<Rightarrow> exn + 'a list) \<Rightarrow> row list \<Rightarrow> exn + 'a list" where
  "collect_rows f [] = Inr []"
| "collect_rows f (r # rs) =
     (case f r of
        Inl e \<Rightarrow> Inl e
      | Inr xs \<Rightarrow> (case collect_rows f rs of Inl e \<Rightarrow> Inl e | Inr ys \<Rightarrow> Inr (xs @ ys)))"

definition get_consistent_performers :: "analytics_service \<Rightarrow> exn + consistent list" where
  "get_consistent_performers self =
     (if no_data self then Inr []
      else
        let max_questions = get_max_questions self
        in if max_questions < 2 then Inr []
           else
             (case collect_rows (consistent_row (frame self) max_questions) (rows (frame self)) of
                Inl e \<Rightarrow> Inl e
              | Inr consistent_students \<Rightarrow> Inr (sort_key std_deviation consistent_students)))"

record inconsistent =
  i_filename :: "cell option"
  i_std_deviation :: real
  score_range :: real
  min_score :: real
  max_score :: real
  i_question_scores :: "real list"

definition inconsistent_row :: "dataframe \<Rightarrow> nat \<Rightarrow> row \<Rightarrow> exn + inconsistent list" where
  "inconsistent_row d max_questions r =
     (case question_percentages d max_questions r of
        Inl e \<Rightarrow> Inl e
      | Inr qp \<Rightarrow>
          if length qp \<ge> 2 then
            (let std_dev = std qp; lo = Min (set qp); hi = Max (set qp); spread = hi - lo
             in if std_dev > 25 \<or> spread > 40 then
                  (case row_filename d r of
                     Inl e \<Rightarrow> Inl e
                   | Inr name \<Rightarrow>
                       Inr [\<lparr> i_filename = name, i_std_deviation = std_dev, score_range = spread,
                              min_score = lo, max_score = hi, i_question_scores = qp \<rparr>])
                else Inr [])
          else Inr [])"

text \<open>\<open>sorted(xs, key=k, reverse=True)\<close> keeps the order of entries with equal keys.\<close>

definition get_inconsistent_performers :: "analytics_service \<Rightarrow> exn + inconsistent list" where
  "get_inconsistent_performers self =
     (if no_data self then Inr []
      else
        let max_questions = get_max_questions self
        in if max_questions < 2 then Inr []
           else
             (case collect_rows (inconsistent_row (frame self) max_questions) (rows (frame self)) of
                Inl e \<Rightarrow> Inl e
              | Inr inconsistent_students \<Rightarrow>
                  Inr (sort_key (\<lambda>x. - i_std_deviation x) inconsistent_students)))"

record above_average =
  above_percentage :: real
  above_count :: nat
  above_total :: nat
  class_average :: real

definition get_above_average_percentage :: "analytics_service \<Rightarrow> exn + above_average" where
  "get_above_average_percentage self =
     (if no_data self then
        Inr \<lparr> above_percentage = 0, above_count = 0, above_total = 0, class_average = 0 \<rparr>
      else
        (case percentages_of (frame self) of
           Inl e \<Rightarrow> Inl e
         | Inr percentages \<Rightarrow>
             (let class_avg = (if percentages \<noteq> [] then mean percentages else 0);
                  above_average_count = length (filter (\<lambda>p. p > class_avg) percentages);
                  total = length percentages
              in Inr \<lparr> above_percentage =
                         (if total > 0 then (of_nat above_average_count / of_nat total) * 100 else 0),
                       above_count = above_average_count,
                       above_total = total,
                       class_average = class_avg \<rparr>)))"

section \<open>Notions used in the statements\<close>

text \<open>The number that a score stands for, when it is a finite number.\<close>

fun num_value :: "json \<Rightarrow> rat option" where
  "num_value (JNum x) = Some x"
| "num_value (JBool b) = Some (if b then 1 else 0)"
| "num_value v = None"

definition score_in_range :: "json \<Rightarrow> int \<Rightarrow> bool" where
  "score_in_range v t \<longleftrightarrow> (case num_value v of Some x \<Rightarrow> 0 \<le> x \<and> x \<le> of_int t | None \<Rightarrow> False)"

text \<open>The candidate region that \<open>_parse_grading_response\<close> cuts out of a response.\<close>

definition json_content :: "string \<Rightarrow> string" where
  "json_content response = json_content_of (strip response) (py_find (strip response) (CHR ''{''))"

text \<open>A scanner consumes text: what it leaves is shorter than what it was given.\<close>

definition consumes :: "scanner \<Rightarrow> bool" where
  "consumes scan \<longleftrightarrow> (\<forall>s v r. scan s = Ok (v, r) \<longrightarrow> length r < length s)"

text \<open>
  Well-nested text: scanning from left to right, every closing brace or bracket closes
  the last symbol still open, and at the end nothing is open. All characters count, also
  those inside JSON strings, as in \<open>_repair_json\<close>.
\<close>

definition closer_of :: "char \<Rightarrow> char" where
  "closer_of c = (if c = CHR ''{'' then CHR ''}'' else CHR '']'')"

fun strict_step :: "char list option \<Rightarrow> char \<Rightarrow> char list option" where
  "strict_step None c = None"
| "strict_step (Some stack) c =
     (if c = CHR ''{'' \<or> c = CHR ''['' then Some (stack @ [c])
      else if c = CHR ''}'' \<or> c = CHR '']'' then
        (if stack \<noteq> [] \<and> c = closer_of (last stack) then Some (butlast stack) else None)
      else Some stack)"

definition well_nested :: "string \<Rightarrow> bool" where
  "well_nested t \<longleftrightarrow> foldl strict_step (Some []) t = Some []"

definition openers :: "char list \<Rightarrow> bool" where
  "openers stack \<longleftrightarrow> (\<forall>c \<in> set stack. c = CHR ''{'' \<or> c = CHR ''['')"

text \<open>
  The questions of a record, the percentage of a question as \<open>_create_dataframe\<close>
  computes it, whether a record attempted question \<open>n\<close> (the question exists and its
  key \<open>attempted\<close> is present and true), and the largest number of questions in a record.
\<close>

definition questions_of :: "result \<Rightarrow> question list" where
  "questions_of r = get_or (r_questions r) []"


definition attempted_at :: "result \<Rightarrow> nat \<Rightarrow> bool" where
  "attempted_at r n \<longleftrightarrow>
     1 \<le> n \<and> n \<le> length (questions_of r) \<and> q_attempted (questions_of r ! (n - 1)) = Some True"

definition max_question_count :: "result list \<Rightarrow> nat" where
  "max_question_count rs = foldr (\<lambda>r m. max (length (questions_of r)) m) rs 0"

text \<open>The number of records that attempted question \<open>n\<close>, and of those that skipped it.\<close>

definition attempted_total :: "result list \<Rightarrow> nat \<Rightarrow> nat" where
  "attempted_total rs n = length (filter (\<lambda>r. attempted_at r n) rs)"

definition skipped_total :: "result list \<Rightarrow> nat \<Rightarrow> int" where
  "skipped_total rs n = int (length rs) - int (attempted_total rs n)"

text \<open>
  The keys of a question object in the JSON format that \<open>_create_grading_prompt\<close>
  asks the grader for.
\<close>

definition prompt_question_keys :: "string list" where
  "prompt_question_keys = [''question_number'', ''question_text'', ''score'', ''max_score'', ''feedback'']"




text \<open>The percentages of the records, defaulting to 0.\<close>

definition percentages_in :: "result list \<Rightarrow> real list" where
  "percentages_in rs = map (\<lambda>r. get_or (r_percentage r) 0) rs"

text \<open>Records for the examples.\<close>

definition scored_question :: "real \<Rightarrow> real \<Rightarrow> question" where
  "scored_question s m = \<lparr> q_attempted = None, q_score = Some s, q_max_score = Some m \<rparr>"

definition record_with :: "string \<Rightarrow> real \<Rightarrow> question list \<Rightarrow> result" where
  "record_with name p qs =
     \<lparr> r_filename = Some name, r_total_marks = Some 100, r_awarded_marks = Some p,
       r_percentage = Some p, r_questions = Some qs \<rparr>"

definition attempted_question :: "bool \<Rightarrow> question" where
  "attempted_question b = \<lparr> q_attempted = Some b, q_score = Some 1, q_max_score = Some 1 \<rparr>"

definition graded :: "real \<Rightarrow> result" where
  "graded p = \<lparr> r_filename = Some ''submission'', r_total_marks = Some 200,
                r_awarded_marks = Some (2 * p), r_percentage = Some p, r_questions = Some [] \<rparr>"

section \<open>Evaluation on concrete inputs\<close>

lemma scan_once_numeral: "scan_once (numeral k) = scan_value (scan_once (pred_numeral k))"
  by (simp add: numeral_eq_Suc)

lemmas json_eval = json_loads_def json_fuel_def scan_value_def object_turn_def array_turn_def
  skip_ws_def json_ws_def scanstring_def dquote_def backslash_def starts_with_def
  scan_number_def scan_unsigned_def scan_int_part_def scan_frac_def scan_exp_def is_digit_def
  py_int_def digit_val_def dict_of_pairs_def ustr_def escape_char_def pow10_def scan_once_numeral

lemmas text_eval = strip_def py_isspace_def py_find_def py_rfind_def json_content_of_def
  slice_def slice_from_def repair_json_def balance_scan_def repair_step_def Let_def
  close_remaining.simps

lemmas regex_eval = re_search.simps match_here_def match_tail_def ci_prefix_def ci_eq_def
  fallback_score_def fallback_text_parsing_def create_error_result_def error_feedback_def
  is_digit_def py_int_def digit_val_def

lemmas normalize_eval = parse_grading_response_def parse_body_def normalize_value_def
  normalize_result_def combine_feedback_def overall_part_def list_part_def justification_part_def
  get_truthy_def dict_get_default_def dict_get_def

section \<open>The response normalizer\<close>

subsection \<open>Shape of the results\<close>

lemma parse_cases:
  "parse_grading_response response t =
     (case parse_body response t of
        Inr r \<Rightarrow> r
      | Inl JSONDecodeError \<Rightarrow> fallback_text_parsing response t
      | Inl e \<Rightarrow> create_error_result (str_exn e))"
  by (simp add: parse_grading_response_def)

lemma parse_body_Inr:
  assumes "parse_body response t = Inr r"
  shows "\<exists>d. normalize_result d t = Inr r \<and>
           (json_loads (json_content response) = Some (JObj d) \<or>
            (json_loads (json_content response) = None \<and>
             json_loads (repair_json (json_content response)) = Some (JObj d)))"
  using assms
  by (auto simp: parse_body_def Let_def json_content_def normalize_value_def
           split: if_splits option.splits json.splits)

lemma py_min_upper: "py_min v t = Inr s \<Longrightarrow> num_value s = Some x \<Longrightarrow> x \<le> of_int t"
  by (cases v) (auto split: if_splits)

lemma normalize_total_score:
  "normalize_result d t = Inr r \<Longrightarrow>
     py_min (dict_get_default d ''total_score'' (JNum 0)) t = Inr (total_score r)"
  by (auto simp: normalize_result_def Let_def split: sum.splits if_splits)

lemma fallback_score_range:
  assumes "0 \<le> t" and "fallback_score response t = Inr s"
  shows "0 \<le> s \<and> s \<le> of_int t"
  using assms
  by (auto simp: fallback_score_def Let_def min_def split: option.splits if_splits
           intro!: mult_nonneg_nonneg divide_nonneg_nonneg)

lemma fallback_in_range:
  "0 \<le> t \<Longrightarrow> score_in_range (total_score (fallback_text_parsing response t)) t"
  using fallback_score_range[of t response]
  by (auto simp: fallback_text_parsing_def score_in_range_def create_error_result_def split: sum.splits)

lemma error_in_range: "0 \<le> t \<Longrightarrow> score_in_range (total_score (create_error_result m)) t"
  by (simp add: create_error_result_def score_in_range_def)

subsection \<open>The awarded score\<close>

text \<open>
  Claim C1 says that the awarded score of every record normalized from a parsed structure
  lies in \<open>[0, total_marks]\<close>, a negative reported score included, and that the same
  holds on the fallback path. The source applies \<open>min(score, total_marks)\<close> and
  nothing else: a score reported as \<open>-5\<close> is awarded as \<open>-5\<close>.
\<close>

theorem negative_score_not_clamped:
  \<open>\<not> score_in_range (total_score (parse_grading_response ''{"total_score": -5, "percentage": 50}'' 10)) 10\<close>
  by (simp add: normalize_eval text_eval json_eval score_in_range_def)

text \<open>
  C1, as the code has it. With \<open>total_marks \<ge> 0\<close>: the awarded score of whatever record
  the normalizer returns never exceeds \<open>total_marks\<close>; a parsed structure that reports
  the number \<open>y\<close> is awarded \<open>min y total_marks\<close>, which lies in \<open>[0, total_marks]\<close>
  when \<open>y\<close> is not negative; and the score of the fallback path lies in
  \<open>[0, total_marks]\<close>.
\<close>

theorem awarded_score_capped:
  assumes "0 \<le> t"
  shows "(num_value (total_score (parse_grading_response response t)) = Some x \<longrightarrow> x \<le> of_int t)
       \<and> (normalize_result d t = Inr r \<and> dict_get_default d ''total_score'' (JNum 0) = JNum y
            \<longrightarrow> total_score r = JNum (min y (of_int t)) \<and> (0 \<le> y \<longrightarrow> score_in_range (total_score r) t))
       \<and> score_in_range (total_score (fallback_text_parsing response t)) t"
proof (intro conjI impI)
  assume nv: "num_value (total_score (parse_grading_response response t)) = Some x"
  show "x \<le> of_int t"
  proof (cases "parse_body response t")
    case (Inr r')
    then obtain d' where "normalize_result d' t = Inr r'" using parse_body_Inr by blast
    then have "py_min (dict_get_default d' ''total_score'' (JNum 0)) t = Inr (total_score r')"
      by (rule normalize_total_score)
    moreover have "parse_grading_response response t = r'" using Inr by (simp add: parse_cases)
    ultimately show ?thesis using nv py_min_upper by metis
  next
    case (Inl e)
    have "score_in_range (total_score (parse_grading_response response t)) t"
      using Inl assms fallback_in_range[of t response] error_in_range[of t]
      by (cases e) (simp_all add: parse_cases)
    then show ?thesis using nv by (simp add: score_in_range_def)
  qed
next
  assume a: "normalize_result d t = Inr r \<and> dict_get_default d ''total_score'' (JNum 0) = JNum y"
  then have "py_min (JNum y) t = Inr (total_score r)" using normalize_total_score by metis
  then show ts: "total_score r = JNum (min y (of_int t))" by (simp add: min_def split: if_splits)
  assume "0 \<le> y"
  then show "score_in_range (total_score r) t" using ts assms by (simp add: score_in_range_def)
next
  show "score_in_range (total_score (fallback_text_parsing response t)) t"
    using assms by (rule fallback_in_range)
qed

theorem awarded_score_capped_witness:
  \<open>(0::int) \<le> 100
   \<and> num_value (total_score (parse_grading_response ''{"total_score": 150}'' 100)) = Some 100
   \<and> (100::rat) \<le> of_int 100
   \<and> (\<exists>r. normalize_result [(ustr ''total_score'', JNum 150)] 100 = Inr r
          \<and> total_score r = JNum 100 \<and> score_in_range (total_score r) 100)
   \<and> score_in_range (total_score (fallback_text_parsing ''{"total_score": 150}'' 100)) 100\<close>
proof -
  have p: \<open>num_value (total_score (parse_grading_response ''{"total_score": 150}'' 100)) = Some 100\<close>
    by (simp add: normalize_eval text_eval json_eval)
  obtain r where n: "normalize_result [(ustr ''total_score'', JNum 150)] 100 = Inr r"
    by (simp add: normalize_eval ustr_def)
  have d: "dict_get_default [(ustr ''total_score'', JNum 150)] ''total_score'' (JNum 0) = JNum 150"
    by (simp add: dict_get_default_def dict_get_def)
  from awarded_score_capped[of 100 \<open>''{"total_score": 150}''\<close> 100 "[(ustr ''total_score'', JNum 150)]" r 150]
  have \<open>(100::rat) \<le> of_int 100
      \<and> total_score r = JNum 100 \<and> score_in_range (total_score r) 100
      \<and> score_in_range (total_score (fallback_text_parsing ''{"total_score": 150}'' 100)) 100\<close>
    using p n d by (simp add: score_in_range_def)
  moreover have "(0::int) \<le> 100" by simp
  ultimately show ?thesis using p n by blast
qed

subsection \<open>The percentage\<close>

lemma normalize_percentage:
  assumes "normalize_result d t = Inr r" and "num_value (total_score r) = Some x"
  shows "(0 < x \<longrightarrow> percentage r = JNum ((x / of_int t) * 100))
       \<and> (x \<le> 0 \<longrightarrow> percentage r = dict_get_default d ''percentage'' (JNum 0))"
proof -
  obtain sc where sc: "py_min (dict_get_default d ''total_score'' (JNum 0)) t = Inr sc"
    using assms(1) by (auto simp: normalize_result_def split: sum.splits)
  then have ts: "total_score r = sc"
    using assms(1) normalize_total_score by fastforce
  show ?thesis
  proof (cases sc)
    case (JNum y)
    then show ?thesis using assms sc ts
      by (auto simp: normalize_result_def Let_def split: sum.splits if_splits)
  next
    case (JBool b)
    then show ?thesis using assms sc ts
      by (auto simp: normalize_result_def Let_def split: sum.splits if_splits)
  qed (use assms ts in auto)
qed

text \<open>
  Claim C9. When the try block of \<open>_parse_grading_response\<close> returns a record \<open>r\<close>
  (a structure was parsed, directly or after repair, and normalized without an exception),
  that record is the result; its score is \<open>min\<close> of the reported score and
  \<open>total_marks\<close>; when the score is a number greater than 0 the percentage is the score
  divided by \<open>total_marks\<close>, times 100; when it is 0 or less the percentage is the value
  under the key \<open>percentage\<close> of the payload, 0 when the key is absent.
\<close>

theorem percentage_recomputed:
  assumes "parse_body response t = Inr r"
  shows "parse_grading_response response t = r
       \<and> (\<exists>d. (json_loads (json_content response) = Some (JObj d)
                \<or> (json_loads (json_content response) = None
                    \<and> json_loads (repair_json (json_content response)) = Some (JObj d)))
              \<and> py_min (dict_get_default d ''total_score'' (JNum 0)) t = Inr (total_score r)
              \<and> (\<forall>x. num_value (total_score r) = Some x \<longrightarrow>
                     (0 < x \<longrightarrow> percentage r = JNum ((x / of_int t) * 100))
                   \<and> (x \<le> 0 \<longrightarrow> percentage r = dict_get_default d ''percentage'' (JNum 0))))"
proof -
  obtain d where d: "normalize_result d t = Inr r"
    and l: "json_loads (json_content response) = Some (JObj d)
            \<or> (json_loads (json_content response) = None
                \<and> json_loads (repair_json (json_content response)) = Some (JObj d))"
    using parse_body_Inr[OF assms] by blast
  have "parse_grading_response response t = r" using assms by (simp add: parse_cases)
  moreover have "py_min (dict_get_default d ''total_score'' (JNum 0)) t = Inr (total_score r)"
    using d by (rule normalize_total_score)
  ultimately show ?thesis using l normalize_percentage[OF d] by blast
qed

theorem percentage_recomputed_witness:
  \<open>percentage (parse_grading_response ''{"total_score": 5, "percentage": 80}'' 10) = JNum 50
   \<and> percentage (parse_grading_response ''{"total_score": 0, "percentage": 80}'' 10) = JNum 80\<close>
proof -
  obtain r1 where b1: \<open>parse_body ''{"total_score": 5, "percentage": 80}'' 10 = Inr r1\<close>
    and s1: "total_score r1 = JNum 5"
    by (simp add: normalize_eval text_eval json_eval)
  obtain r2 where b2: \<open>parse_body ''{"total_score": 0, "percentage": 80}'' 10 = Inr r2\<close>
    and s2: "total_score r2 = JNum 0"
    by (simp add: normalize_eval text_eval json_eval)
  have j1: \<open>json_loads (json_content ''{"total_score": 5, "percentage": 80}'') =
      Some (JObj [(ustr ''total_score'', JNum 5), (ustr ''percentage'', JNum 80)])\<close>
    by (simp add: json_content_def text_eval json_eval)
  have j2: \<open>json_loads (json_content ''{"total_score": 0, "percentage": 80}'') =
      Some (JObj [(ustr ''total_score'', JNum 0), (ustr ''percentage'', JNum 80)])\<close>
    by (simp add: json_content_def text_eval json_eval)
  have \<open>percentage (parse_grading_response ''{"total_score": 5, "percentage": 80}'' 10) = JNum 50\<close>
    using percentage_recomputed[OF b1] s1 j1 by (auto simp: dict_get_default_def dict_get_def)
  moreover have \<open>percentage (parse_grading_response ''{"total_score": 0, "percentage": 80}'' 10) = JNum 80\<close>
    using percentage_recomputed[OF b2] s2 j2 by (auto simp: dict_get_default_def dict_get_def ustr_def)
  ultimately show ?thesis by simp
qed

subsection \<open>The fallback text parser\<close>










section \<open>The bound of the JSON decoder is never reached\<close>

lemma skip_ws_length: "length (skip_ws s) \<le> length s"
  by (simp add: skip_ws_def length_dropWhile_le)

lemma skip_ws_Cons_length: "skip_ws s = c # r \<Longrightarrow> length r < length s"
  using skip_ws_length[of s] by simp

lemma scan_units_shorter: "scan_units s = Some (us, t) \<Longrightarrow> length t < length s"
proof (induction s arbitrary: us t rule: scan_units.induct)
  case 1
  then show ?case by simp
next
  case (2 c cs)
  show ?case
  proof (cases "c = dquote")
    case True
    then show ?thesis using "2.prems" by simp
  next
    case nq: False
    show ?thesis
    proof (cases "c = backslash")
      case True
      then show ?thesis using "2.prems" "2.IH"(1,2) nq
        by (fastforce split: list.splits if_splits option.splits prod.splits)
    next
      case False
      then show ?thesis using "2.prems" "2.IH"(3) nq
        by (fastforce split: if_splits option.splits prod.splits)
    qed
  qed
qed

lemma scanstring_shorter: "scanstring s = Some (k, t) \<Longrightarrow> length t < length s"
  by (auto simp: scanstring_def split: option.splits dest: scan_units_shorter)

lemma dropWhile_digit_le: "length (dropWhile is_digit s) \<le> length s"
  by (rule length_dropWhile_le)

lemma scan_int_part_shorter: "scan_int_part s = Some (ds, r) \<Longrightarrow> length r < length s"
  by (auto simp: scan_int_part_def split: list.splits if_splits
           intro: le_imp_less_Suc length_dropWhile_le)

lemma scan_frac_le: "scan_frac s = (fs, r) \<Longrightarrow> length r \<le> length s"
  by (auto simp: scan_frac_def split: list.splits if_splits
           intro: le_SucI length_dropWhile_le)

lemma scan_exp_le: "scan_exp s = Some (e, r) \<Longrightarrow> length r \<le> length s"
  by (auto simp: scan_exp_def split: list.splits if_splits
           intro: le_SucI length_dropWhile_le)

lemma scan_unsigned_shorter: "scan_unsigned s = Some (x, t) \<Longrightarrow> length t < length s"
  unfolding scan_unsigned_def
  by (auto simp: Let_def split: option.splits prod.splits
           dest!: scan_int_part_shorter scan_frac_le scan_exp_le)

lemma scan_number_shorter: "scan_number s = Some (x, t) \<Longrightarrow> length t < length s"
  by (auto simp: scan_number_def split: list.splits if_splits option.splits
           dest!: scan_unsigned_shorter)

lemma starts_with_drop: "starts_with p s \<Longrightarrow> p \<noteq> [] \<Longrightarrow> length (drop (length p) s) < length s"
  by (cases s) (auto simp: starts_with_def)

lemma consumesD: "consumes scan \<Longrightarrow> scan s = Ok (v, r) \<Longrightarrow> length r < length s"
  by (auto simp: consumes_def)

lemma array_turn_Done:
  assumes "consumes scan" and "array_turn scan s vals = Done (Ok (v, r))"
  shows "length r < length s"
proof -
  obtain w u where 1: "scan s = Ok (w, u)"
    using assms(2) by (auto simp: array_turn_def split: parse.splits)
  obtain c where 2: "skip_ws u = c # r"
    using assms(2) 1 by (auto simp: array_turn_def split: list.splits if_splits)
  show ?thesis using consumesD[OF assms(1) 1] skip_ws_Cons_length[OF 2] by simp
qed

lemma array_turn_More:
  assumes "consumes scan" and "array_turn scan s vals = More (s', vals')"
  shows "length s' < length s"
proof -
  obtain w u where 1: "scan s = Ok (w, u)"
    using assms(2) by (auto simp: array_turn_def split: parse.splits)
  obtain c r1 where 2: "skip_ws u = c # r1" and 3: "s' = skip_ws r1"
    using assms(2) 1 by (auto simp: array_turn_def split: list.splits if_splits)
  show ?thesis
    using consumesD[OF assms(1) 1] skip_ws_Cons_length[OF 2] skip_ws_length[of r1] 3 by simp
qed

lemma array_items_shorter:
  "consumes scan \<Longrightarrow> array_items scan k s vals = Ok (v, r) \<Longrightarrow> length r < length s"
proof (induction k arbitrary: s vals)
  case 0
  then show ?case by simp
next
  case (Suc k)
  show ?case
  proof (cases "array_turn scan s vals")
    case (Done res)
    then show ?thesis using Suc.prems array_turn_Done by fastforce
  next
    case (More m)
    obtain s' vals' where m: "m = (s', vals')" by (cases m)
    then have "length s' < length s" using More Suc.prems(1) array_turn_More by blast
    moreover have "array_items scan k s' vals' = Ok (v, r)" using Suc.prems(2) More m by simp
    ultimately show ?thesis using Suc.IH[OF Suc.prems(1)] by fastforce
  qed
qed

lemma object_turn_scan:
  assumes "object_turn scan s pairs = Done (Ok (v, r)) \<or> object_turn scan s pairs = More (s', pairs')"
  shows "\<exists>key u c r1 w r2 c2 r3. scanstring s = Some (key, u) \<and> skip_ws u = c # r1
    \<and> scan (skip_ws r1) = Ok (w, r2) \<and> skip_ws r2 = c2 # r3
    \<and> (object_turn scan s pairs = Done (Ok (v, r)) \<longrightarrow> r = r3)
    \<and> (object_turn scan s pairs = More (s', pairs') \<longrightarrow> (\<exists>c3. skip_ws r3 = c3 # s'))"
proof -
  obtain key u where 1: "scanstring s = Some (key, u)"
    using assms by (auto simp: object_turn_def split: option.splits)
  obtain c r1 where 2: "skip_ws u = c # r1" and colon: "c = CHR '':''"
    using assms 1 by (auto simp: object_turn_def split: list.splits if_splits)
  obtain w r2 where 3: "scan (skip_ws r1) = Ok (w, r2)"
    using assms 1 2 colon by (auto simp: object_turn_def split: parse.splits)
  obtain c2 r3 where 4: "skip_ws r2 = c2 # r3"
    using assms 1 2 colon 3 by (auto simp: object_turn_def split: list.splits)
  have 5: "object_turn scan s pairs = Done (Ok (v, r)) \<longrightarrow> r = r3"
    using 1 2 colon 3 4 by (auto simp: object_turn_def split: list.splits if_splits)
  have 6: "object_turn scan s pairs = More (s', pairs') \<longrightarrow> (\<exists>c3. skip_ws r3 = c3 # s')"
    using 1 2 colon 3 4 by (auto simp: object_turn_def split: list.splits if_splits)
  show ?thesis using 1 2 3 4 5 6 by blast
qed

lemma object_turn_Done:
  assumes "consumes scan" and "object_turn scan s pairs = Done (Ok (v, r))"
  shows "length r < length s"
proof -
  obtain key u c r1 w r2 c2 r3 where "scanstring s = Some (key, u)" and "skip_ws u = c # r1"
    and "scan (skip_ws r1) = Ok (w, r2)" and "skip_ws r2 = c2 # r3" and "r = r3"
    using object_turn_scan[of scan s pairs v r "[]" "[]"] assms(2) by auto
  then show ?thesis
    using scanstring_shorter[of s key u] skip_ws_Cons_length[of u c r1] skip_ws_length[of r1]
      consumesD[OF assms(1), of "skip_ws r1" w r2] skip_ws_Cons_length[of r2 c2 r3]
    by simp
qed

lemma object_turn_More:
  assumes "consumes scan" and "object_turn scan s pairs = More (s', pairs')"
  shows "length s' < length s"
proof -
  obtain key u c r1 w r2 c2 r3 c3 where "scanstring s = Some (key, u)" and "skip_ws u = c # r1"
    and "scan (skip_ws r1) = Ok (w, r2)" and "skip_ws r2 = c2 # r3" and "skip_ws r3 = c3 # s'"
    using object_turn_scan[of scan s pairs JNull "[]" s' pairs'] assms(2) by auto
  then show ?thesis
    using scanstring_shorter[of s key u] skip_ws_Cons_length[of u c r1] skip_ws_length[of r1]
      consumesD[OF assms(1), of "skip_ws r1" w r2] skip_ws_Cons_length[of r2 c2 r3]
      skip_ws_Cons_length[of r3 c3 s']
    by simp
qed

lemma object_pairs_shorter:
  "consumes scan \<Longrightarrow> object_pairs scan k s pairs = Ok (v, r) \<Longrightarrow> length r < length s"
proof (induction k arbitrary: s pairs)
  case 0
  then show ?case by simp
next
  case (Suc k)
  show ?case
  proof (cases "object_turn scan s pairs")
    case (Done res)
    then show ?thesis using Suc.prems object_turn_Done by fastforce
  next
    case (More m)
    obtain s' pairs' where m: "m = (s', pairs')" by (cases m)
    then have "length s' < length s" using More Suc.prems(1) object_turn_More by blast
    moreover have "object_pairs scan k s' pairs' = Ok (v, r)" using Suc.prems(2) More m by simp
    ultimately show ?thesis using Suc.IH[OF Suc.prems(1)] by fastforce
  qed
qed

lemma scan_value_consumes:
  assumes "consumes scan"
  shows "consumes (scan_value scan)"
  unfolding consumes_def
proof (intro allI impI)
  fix s v r
  assume a: "scan_value scan s = Ok (v, r)"
  then obtain c t where s: "s = c # t" by (cases s) (auto simp: scan_value_def)
  consider (str) "c = dquote" | (obj) "c \<noteq> dquote" "c = CHR ''{''"
    | (arr) "c \<noteq> dquote" "c \<noteq> CHR ''{''" "c = CHR ''[''"
    | (atom) "c \<noteq> dquote" "c \<noteq> CHR ''{''" "c \<noteq> CHR ''[''" by blast
  then show "length r < length s"
  proof cases
    case str
    then show ?thesis using a s
      by (auto simp: scan_value_def split: option.splits dest!: scanstring_shorter)
  next
    case obj
    then obtain c' r' where w: "skip_ws t = c' # r'"
      using a s by (auto simp: scan_value_def split: list.splits)
    then have "r = r' \<or> object_pairs scan (Suc (length t)) r' [] = Ok (v, r)"
      using a s obj by (auto simp: scan_value_def split: if_splits)
    then show ?thesis
      using object_pairs_shorter[OF assms, of "Suc (length t)" r' "[]" v r]
        skip_ws_Cons_length[OF w] s by auto
  next
    case arr
    then obtain c' r' where w: "skip_ws t = c' # r'"
      using a s by (auto simp: scan_value_def split: list.splits)
    then have "r = r' \<or> array_items scan (Suc (length t)) (c' # r') [] = Ok (v, r)"
      using a s arr by (auto simp: scan_value_def split: if_splits)
    then show ?thesis
      using array_items_shorter[OF assms, of "Suc (length t)" "c' # r'" "[]" v r]
        skip_ws_Cons_length[OF w] skip_ws_length[of t] w s by auto
  next
    case atom
    then show ?thesis using a s
      starts_with_drop[of "''null''" s] starts_with_drop[of "''true''" s]
      starts_with_drop[of "''false''" s] starts_with_drop[of "''NaN''" s]
      starts_with_drop[of "''Infinity''" s] starts_with_drop[of "''-Infinity''" s]
      scan_number_shorter[of s]
      by (auto simp: scan_value_def split: if_splits option.splits)
  qed
qed

lemma scan_once_consumes: "consumes (scan_once n)"
  by (induction n) (simp_all add: consumes_def scan_value_consumes[unfolded consumes_def])

lemma array_turn_fuel:
  assumes "\<forall>u. length u \<le> length s \<longrightarrow> scan u \<noteq> OutOfFuel"
  shows "array_turn scan s vals \<noteq> Done OutOfFuel"
  using assms by (auto simp: array_turn_def split: parse.splits prod.splits list.splits)

lemma array_items_enough:
  assumes "consumes scan"
  shows "length s < k \<Longrightarrow> (\<forall>u. length u \<le> length s \<longrightarrow> scan u \<noteq> OutOfFuel) \<Longrightarrow>
         array_items scan k s vals \<noteq> OutOfFuel"
proof (induction k arbitrary: s vals)
  case 0
  then show ?case by simp
next
  case (Suc k)
  show ?case
  proof (cases "array_turn scan s vals")
    case (Done res)
    then show ?thesis using array_turn_fuel[OF Suc.prems(2), of vals] by auto
  next
    case (More m)
    obtain s' vals' where m: "m = (s', vals')" by (cases m)
    then have l: "length s' < length s" using More assms array_turn_More by blast
    then have "array_items scan k s' vals' \<noteq> OutOfFuel"
      using Suc.IH[of s' vals'] Suc.prems by auto
    then show ?thesis using More m by simp
  qed
qed

lemma object_turn_fuel:
  assumes "\<forall>u. length u \<le> length s \<longrightarrow> scan u \<noteq> OutOfFuel"
  shows "object_turn scan s pairs \<noteq> Done OutOfFuel"
proof
  assume a: "object_turn scan s pairs = Done OutOfFuel"
  then obtain key u where 1: "scanstring s = Some (key, u)"
    by (auto simp: object_turn_def split: option.splits)
  obtain c r1 where 2: "skip_ws u = c # r1" and colon: "c = CHR '':''"
    using a 1 by (auto simp: object_turn_def split: list.splits if_splits)
  have "scan (skip_ws r1) = OutOfFuel"
    using a 1 2 colon by (auto simp: object_turn_def split: parse.splits list.splits if_splits)
  moreover have "length (skip_ws r1) \<le> length s"
    using scanstring_shorter[OF 1] skip_ws_Cons_length[OF 2] skip_ws_length[of r1] by simp
  ultimately show False using assms by blast
qed

lemma object_pairs_enough:
  assumes "consumes scan"
  shows "length s < k \<Longrightarrow> (\<forall>u. length u \<le> length s \<longrightarrow> scan u \<noteq> OutOfFuel) \<Longrightarrow>
         object_pairs scan k s pairs \<noteq> OutOfFuel"
proof (induction k arbitrary: s pairs)
  case 0
  then show ?case by simp
next
  case (Suc k)
  show ?case
  proof (cases "object_turn scan s pairs")
    case (Done res)
    then show ?thesis using object_turn_fuel[OF Suc.prems(2), of pairs] by auto
  next
    case (More m)
    obtain s' pairs' where m: "m = (s', pairs')" by (cases m)
    then have l: "length s' < length s" using More assms object_turn_More by blast
    then have "object_pairs scan k s' pairs' \<noteq> OutOfFuel"
      using Suc.IH[of s' pairs'] Suc.prems by auto
    then show ?thesis using More m by simp
  qed
qed

lemma scan_value_enough:
  assumes "consumes scan" and "\<forall>u. length u < length s \<longrightarrow> scan u \<noteq> OutOfFuel"
  shows "scan_value scan s \<noteq> OutOfFuel"
proof (cases s)
  case Nil
  then show ?thesis by (simp add: scan_value_def)
next
  case (Cons c t)
  consider (str) "c = dquote" | (obj) "c \<noteq> dquote" "c = CHR ''{''"
    | (arr) "c \<noteq> dquote" "c \<noteq> CHR ''{''" "c = CHR ''[''"
    | (atom) "c \<noteq> dquote" "c \<noteq> CHR ''{''" "c \<noteq> CHR ''[''" by blast
  then show ?thesis
  proof cases
    case str
    then show ?thesis using Cons by (auto simp: scan_value_def split: option.splits)
  next
    case obj
    show ?thesis
    proof (cases "skip_ws t")
      case Nil
      then show ?thesis using Cons obj by (simp add: scan_value_def)
    next
      case (Cons c' r')
      have l: "length r' < length t" using skip_ws_Cons_length[OF Cons] .
      have "object_pairs scan (Suc (length t)) r' [] \<noteq> OutOfFuel"
        using object_pairs_enough[OF assms(1), of r' "Suc (length t)" "[]"] l assms(2) \<open>s = c # t\<close>
        by auto
      then show ?thesis using Cons obj \<open>s = c # t\<close> by (simp add: scan_value_def)
    qed
  next
    case arr
    show ?thesis
    proof (cases "skip_ws t")
      case Nil
      then show ?thesis using Cons arr by (simp add: scan_value_def)
    next
      case (Cons c' r')
      have l: "length (c' # r') \<le> length t" using skip_ws_length[of t] Cons by simp
      have "array_items scan (Suc (length t)) (c' # r') [] \<noteq> OutOfFuel"
        using array_items_enough[OF assms(1), of "c' # r'" "Suc (length t)" "[]"] l assms(2) \<open>s = c # t\<close>
        by auto
      then show ?thesis using Cons arr \<open>s = c # t\<close> by (simp add: scan_value_def)
    qed
  next
    case atom
    then show ?thesis using Cons by (auto simp: scan_value_def split: option.splits)
  qed
qed

lemma scan_once_enough: "length s < n \<Longrightarrow> scan_once n s \<noteq> OutOfFuel"
proof (induction n arbitrary: s)
  case 0
  then show ?case by simp
next
  case (Suc n)
  have "\<forall>u. length u < length s \<longrightarrow> scan_once n u \<noteq> OutOfFuel"
    using Suc by auto
  then show ?case using scan_value_enough[OF scan_once_consumes] by simp
qed

lemma json_loads_fuel: "scan_once (json_fuel s) (skip_ws s) \<noteq> OutOfFuel"
  using scan_once_enough[of "skip_ws s" "json_fuel s"] skip_ws_length[of s]
  by (simp add: json_fuel_def)

section \<open>Repair of truncated text\<close>

subsection \<open>The candidate region has no surrounding white space\<close>

lemma find_from_found:
  "find_from i c s \<noteq> -1 \<Longrightarrow>
     \<exists>j < length s. find_from i c s = int (i + j) \<and> s ! j = c"
proof (induction s arbitrary: i)
  case Nil
  then show ?case by simp
next
  case (Cons x xs)
  show ?case
  proof (cases "x = c")
    case True
    then show ?thesis by (intro exI[of _ 0]) simp
  next
    case False
    then obtain j where "j < length xs" "find_from (Suc i) c xs = int (Suc i + j)" "xs ! j = c"
      using Cons by fastforce
    then show ?thesis using False by (intro exI[of _ "Suc j"]) simp
  qed
qed

lemma strip_fixed:
  assumes "t \<noteq> []" and "\<not> py_isspace (hd t)" and "\<not> py_isspace (last t)"
  shows "strip t = t"
proof -
  have 1: "dropWhile py_isspace t = t" using assms(1,2) by (cases t) simp_all
  have "hd (rev t) = last t" using assms(1) by (simp add: hd_rev)
  then have "dropWhile py_isspace (rev t) = rev t"
    using assms(3) by (simp add: dropWhile_eq_self_iff)
  then show ?thesis using 1 by (simp add: strip_def)
qed

lemma dropWhile_hd: "dropWhile P xs \<noteq> [] \<Longrightarrow> \<not> P (hd (dropWhile P xs))"
  by (metis hd_dropWhile)

lemma strip_ends:
  assumes "strip s \<noteq> []"
  shows "\<not> py_isspace (hd (strip s)) \<and> \<not> py_isspace (last (strip s))"
proof -
  let ?a = "dropWhile py_isspace s"
  let ?b = "dropWhile py_isspace (rev ?a)"
  have b: "?b \<noteq> []" using assms by (simp add: strip_def)
  then have l: "\<not> py_isspace (hd ?b)" by (rule dropWhile_hd)
  have "last (strip s) = hd ?b" using b by (simp add: strip_def last_rev)
  then have 1: "\<not> py_isspace (last (strip s))" using l by simp
  have a: "?a \<noteq> []"
  proof
    assume "?a = []"
    then have "?b = []" by (simp only: rev.simps dropWhile.simps)
    then show False using b by simp
  qed
  then have ha: "\<not> py_isspace (hd ?a)" by (rule dropWhile_hd)
  obtain k where k: "?b = drop k (rev ?a)"
    by (metis dropWhile_eq_drop)
  have "rev ?b = take (length ?a - k) ?a" using k by (simp add: rev_drop)
  moreover have "rev ?b \<noteq> []" using b by simp
  ultimately have "hd (rev ?b) = hd ?a" by (metis hd_take take_eq_Nil gr0I)
  then have "\<not> py_isspace (hd (strip s))" using ha by (simp add: strip_def)
  then show ?thesis using 1 by simp
qed

lemma json_content_stripped:
  assumes "py_find (strip response) (CHR ''{'') \<noteq> -1"
  shows "strip (json_content response) = json_content response"
proof -
  let ?raw = "strip response"
  obtain j where j: "j < length ?raw" "py_find ?raw (CHR ''{'') = int j" "?raw ! j = CHR ''{''"
    using find_from_found[of 0 "CHR ''{''" ?raw] assms by (auto simp: py_find_def)
  then have ne: "?raw \<noteq> []" by auto
  have sp: "\<not> py_isspace (CHR ''{'')" "\<not> py_isspace (CHR ''}'')" by (simp_all add: py_isspace_def)
  show ?thesis
  proof (cases "py_rfind ?raw (CHR ''}'') \<noteq> -1 \<and> py_rfind ?raw (CHR ''}'') > int j")
    case True
    then have f: "find_from 0 (CHR ''}'') (rev ?raw) \<noteq> -1"
      by (auto simp: py_rfind_def Let_def split: if_splits)
    then obtain k where k: "k < length ?raw" "find_from 0 (CHR ''}'') (rev ?raw) = int k"
        "rev ?raw ! k = CHR ''}''"
      using find_from_found[of 0 "CHR ''}''" "rev ?raw"] by auto
    define e where "e = length ?raw - 1 - k"
    have el: "e < length ?raw" and ei: "int e = int (length ?raw) - 1 - int k"
      using k(1) by (simp_all add: e_def)
    have e: "py_rfind ?raw (CHR ''}'') = int e"
      using k(2) ei by (simp add: py_rfind_def Let_def)
    have ee: "?raw ! e = CHR ''}''" using k(1,3) by (simp add: rev_nth e_def)
    have je: "j < e" using True e by simp
    have n: "nat (int e + 1) = Suc e" by simp
    have "json_content response = slice ?raw (int j) (int e + 1)"
      using True e j(2) by (simp add: json_content_def json_content_of_def Let_def)
    then have c: "json_content response = take (Suc e - j) (drop j ?raw)"
      by (simp only: slice_def n nat_int)
    have len: "length (json_content response) = Suc e - j" using c el je by simp
    have h: "hd (json_content response) = CHR ''{''"
      using c j je by (simp add: hd_drop_conv_nth)
    have ne2: "json_content response \<noteq> []" using len je by auto
    have "last (json_content response) = json_content response ! (e - j)"
      using last_conv_nth[OF ne2] len by simp
    also have "\<dots> = ?raw ! e" using c je el by simp
    finally have l: "last (json_content response) = CHR ''}''" using ee by simp
    show ?thesis using strip_fixed[OF ne2] h l sp by simp
  next
    case False
    then have c: "json_content response = drop j ?raw"
      using j(2) by (auto simp: json_content_def json_content_of_def slice_from_def Let_def)
    have h: "hd (json_content response) = CHR ''{''" using c j by (simp add: hd_drop_conv_nth)
    have "last (json_content response) = last ?raw" using c j(1) by simp
    then have l: "\<not> py_isspace (last (json_content response))" using strip_ends[OF ne] by simp
    have ne3: "json_content response \<noteq> []" using c j(1) by simp
    show ?thesis using strip_fixed[OF ne3] h l sp by simp
  qed
qed

subsection \<open>The repair appends the missing closers\<close>

lemma strict_None: "foldl strict_step None s = None"
  by (induction s) simp_all

lemma openers_butlast: "openers st \<Longrightarrow> openers (butlast st)"
  by (auto simp: openers_def dest: in_set_butlastD)

lemma strict_step_agrees:
  assumes "openers st" and "strict_step (Some st) c = Some st'"
  shows "repair_step st c = st' \<and> openers st'"
proof -
  consider (op) "c = CHR ''{'' \<or> c = CHR ''[''"
    | (cl) "c = CHR ''}'' \<or> c = CHR '']''"
    | (other) "c \<noteq> CHR ''{''" "c \<noteq> CHR ''[''" "c \<noteq> CHR ''}''" "c \<noteq> CHR '']''"
    by blast
  then show ?thesis
  proof cases
    case op
    then have "st' = st @ [c]" using assms(2) by auto
    then show ?thesis using op assms(1) by (auto simp: repair_step_def openers_def)
  next
    case cl
    then have c: "c \<noteq> CHR ''{''" "c \<noteq> CHR ''[''" by auto
    have ne: "st \<noteq> []" and m: "c = closer_of (last st)" and r: "st' = butlast st"
      using assms(2) cl c by (auto split: if_splits)
    have "last st = CHR ''{'' \<or> last st = CHR ''[''"
      using assms(1) ne last_in_set[of st] by (simp add: openers_def)
    then have "(c = CHR ''}'' \<and> last st = CHR ''{'') \<or> (c = CHR '']'' \<and> last st = CHR ''['')"
      using m by (auto simp: closer_of_def)
    then have "repair_step st c = butlast st"
      using cl c ne by (simp add: repair_step_def)
    then show ?thesis using r openers_butlast[OF assms(1)] by simp
  next
    case other
    then have "st' = st" using assms(2) by simp
    then show ?thesis using other assms(1) by (simp add: repair_step_def)
  qed
qed

lemma strict_scan_agrees:
  "openers st \<Longrightarrow> foldl strict_step (Some st) s = Some st' \<Longrightarrow>
     foldl repair_step st s = st' \<and> openers st'"
proof (induction s arbitrary: st)
  case Nil
  then show ?case by simp
next
  case (Cons c s)
  obtain st1 where 1: "strict_step (Some st) c = Some st1"
    using Cons.prems(2) strict_None by (cases "strict_step (Some st) c") auto
  then have "repair_step st c = st1" and "openers st1"
    using strict_step_agrees[OF Cons.prems(1)] by auto
  then show ?case using Cons.IH[of st1] Cons.prems(2) 1 by simp
qed

lemma closers_of_stack:
  assumes "\<forall>c \<in> set cs. c = CHR ''}'' \<or> c = CHR '']''"
  shows "foldl strict_step (Some st) cs = Some [] \<Longrightarrow> cs = map closer_of (rev st)"
  using assms
proof (induction cs arbitrary: st)
  case Nil
  then show ?case by simp
next
  case (Cons c cs)
  have c: "c = CHR ''}'' \<or> c = CHR '']''" using Cons.prems(2) by simp
  have ne: "st \<noteq> [] \<and> c = closer_of (last st)"
  proof (rule ccontr)
    assume "\<not> ?thesis"
    then have "strict_step (Some st) c = None" using c by auto
    then show False using Cons.prems(1) strict_None by simp
  qed
  then have "strict_step (Some st) c = Some (butlast st)" using c by auto
  then have cs: "cs = map closer_of (rev (butlast st))"
    using Cons.IH[of "butlast st"] Cons.prems by simp
  have e: "butlast st @ [last st] = st" using ne by simp
  have "rev (butlast st @ [last st]) = last st # rev (butlast st)" by simp
  then have "rev st = last st # rev (butlast st)" by (simp only: e)
  then have "map closer_of (rev st) = closer_of (last st) # map closer_of (rev (butlast st))"
    by (simp only: list.map)
  then show ?case using ne cs by (simp only:)
qed

lemma close_remaining_openers:
  "openers st \<Longrightarrow> close_remaining st js = js @ map closer_of (rev st)"
proof (induction st arbitrary: js rule: rev_induct)
  case Nil
  then show ?case by (subst close_remaining.simps) simp
next
  case (snoc x xs)
  have x: "x = CHR ''{'' \<or> x = CHR ''[''" and xs: "openers xs"
    using snoc.prems by (auto simp: openers_def)
  have "close_remaining (xs @ [x]) js = close_remaining xs (js @ [closer_of x])"
    using x by (subst close_remaining.simps) (auto simp: closer_of_def Let_def)
  then show ?case using snoc.IH[OF xs] by simp
qed

lemma repair_appends_closers:
  assumes "strip s = s"
    and "even (count_list s dquote)"
    and "\<forall>c \<in> set cs. c = CHR ''}'' \<or> c = CHR '']''"
    and "well_nested (s @ cs)"
  shows "repair_json s = s @ cs"
proof -
  obtain st where st: "foldl strict_step (Some []) s = Some st"
    using assms(4) strict_None
    by (cases "foldl strict_step (Some []) s") (auto simp: well_nested_def)
  have o: "openers []" by (simp add: openers_def)
  have b: "balance_scan s = st" and ost: "openers st"
    using strict_scan_agrees[OF o st] by (auto simp: balance_scan_def)
  have "foldl strict_step (Some st) cs = Some []"
    using assms(4) st by (simp add: well_nested_def)
  then have "cs = map closer_of (rev st)" using closers_of_stack[OF assms(3)] by blast
  then show ?thesis
    using assms(1,2) b close_remaining_openers[OF ost, of s]
    by (simp add: repair_json_def Let_def)
qed

subsection \<open>Truncated payloads\<close>

lemma parse_body_repaired:
  assumes "py_find (strip response) (CHR ''{'') \<noteq> -1"
    and "even (count_list (json_content response) dquote)"
    and "\<forall>c \<in> set cs. c = CHR ''}'' \<or> c = CHR '']''"
    and "well_nested (json_content response @ cs)"
    and "json_loads (json_content response) = None"
    and "json_loads (json_content response @ cs) = Some (JObj d)"
  shows "repair_json (json_content response) = json_content response @ cs
       \<and> parse_body response t = normalize_result d t"
proof -
  have r: "repair_json (json_content response) = json_content response @ cs"
    using repair_appends_closers[OF json_content_stripped[OF assms(1)] assms(2,3,4)] .
  then have "parse_body response t = normalize_result d t"
    using assms(1,5,6)
    by (simp add: parse_body_def Let_def json_content_def[symmetric] normalize_value_def)
  then show ?thesis using r by simp
qed

text \<open>
  Claim C2 says that a payload which misses only its final closing brace is repaired into
  text that parses, and is normalized to its score. The scan of \<open>_repair_json\<close> counts
  braces inside strings like any others: the payload below misses only its final brace
  (with the brace it parses, to the score 5), the repair appends two braces, the result
  does not parse, and the normalizer falls back to the pattern, which finds no score.
\<close>

theorem brace_in_string_defeats_repair:
  \<open>json_loads (''{"total_score": 5, "f": "{"'' @ ''}'')
      = Some (JObj [(ustr ''total_score'', JNum 5), (ustr ''f'', JStr (ustr ''{''))])
   \<and> repair_json (json_content ''{"total_score": 5, "f": "{"'') = ''{"total_score": 5, "f": "{"}}''
   \<and> json_loads (repair_json (json_content ''{"total_score": 5, "f": "{"'')) = None
   \<and> total_score (parse_grading_response ''{"total_score": 5, "f": "{"'' 10) = JNum 0\<close>
  by (simp add: normalize_eval json_content_def text_eval json_eval regex_eval)

text \<open>
  C2, as the code has it. Let the response have an opening brace, and let its candidate
  region miss only the closing symbols \<open>cs\<close>: the region does not parse, the region
  followed by \<open>cs\<close> parses to an object \<open>d\<close>, it has an even number of quotation
  marks, and with \<open>cs\<close> its braces and brackets (all of them, those inside strings
  included) are well nested. Then the repair appends exactly \<open>cs\<close>; and when \<open>d\<close>
  normalizes to a record, that record is the result, with the score \<open>y\<close> that \<open>d\<close>
  reports whenever \<open>y \<le> total_marks\<close>. The witness is the payload of the spec,
  \<open>{"total_score": 5, "percentage": 50\<close>, and \<open>missing_brace_example\<close> gives its
  result for every \<open>total_marks \<ge> 5\<close>.
\<close>

theorem repair_restores_closers:
  assumes "py_find (strip response) (CHR ''{'') \<noteq> -1"
    and "even (count_list (json_content response) dquote)"
    and "\<forall>c \<in> set cs. c = CHR ''}'' \<or> c = CHR '']''"
    and "well_nested (json_content response @ cs)"
    and "json_loads (json_content response) = None"
    and "json_loads (json_content response @ cs) = Some (JObj d)"
  shows "repair_json (json_content response) = json_content response @ cs
       \<and> (normalize_result d t = Inr r \<longrightarrow>
             parse_grading_response response t = r
           \<and> (dict_get d ''total_score'' = Some (JNum y) \<and> y \<le> of_int t \<longrightarrow> total_score r = JNum y))"
proof -
  have b: "repair_json (json_content response) = json_content response @ cs"
    and p: "parse_body response t = normalize_result d t"
    using parse_body_repaired[OF assms] by auto
  have "parse_grading_response response t = r" if "normalize_result d t = Inr r"
    using that p by (simp add: parse_cases)
  moreover have "total_score r = JNum y"
    if "normalize_result d t = Inr r" and "dict_get d ''total_score'' = Some (JNum y) \<and> y \<le> of_int t"
  proof -
    have "dict_get_default d ''total_score'' (JNum 0) = JNum y"
      using that(2) by (simp add: dict_get_default_def)
    then have "py_min (JNum y) t = Inr (total_score r)"
      using normalize_total_score[OF that(1)] by simp
    moreover have "\<not> of_int t < y" using that(2) by simp
    ultimately show ?thesis by simp
  qed
  ultimately show ?thesis using b by blast
qed

theorem repair_restores_closers_witness:
  \<open>repair_json (json_content ''{"total_score": 5, "percentage": 50'') = ''{"total_score": 5, "percentage": 50}''
   \<and> json_loads ''{"total_score": 5, "percentage": 50}''
        = Some (JObj [(ustr ''total_score'', JNum 5), (ustr ''percentage'', JNum 50)])
   \<and> total_score (parse_grading_response ''{"total_score": 5, "percentage": 50'' 10) = JNum 5\<close>
proof -
  let ?x = \<open>''{"total_score": 5, "percentage": 50''\<close>
  let ?d = "[(ustr ''total_score'', JNum 5), (ustr ''percentage'', JNum 50)]"
  have c: "json_content ?x = ?x" by (simp add: json_content_def text_eval)
  have 1: "py_find (strip ?x) (CHR ''{'') \<noteq> -1" by (simp add: text_eval)
  have 2: "even (count_list (json_content ?x) dquote)" by (simp add: c dquote_def)
  have 3: "\<forall>c \<in> set ''}''. c = CHR ''}'' \<or> c = CHR '']''" by simp
  have 4: "well_nested (json_content ?x @ ''}'')" by (simp add: c well_nested_def closer_of_def)
  have 5: "json_loads (json_content ?x) = None" by (simp add: c json_eval)
  have 6: "json_loads (json_content ?x @ ''}'') = Some (JObj ?d)" by (simp add: c json_eval)
  obtain r where n: "normalize_result ?d 10 = Inr r"
    by (simp add: normalize_eval ustr_def)
  have g: "dict_get ?d ''total_score'' = Some (JNum 5) \<and> (5::rat) \<le> of_int 10"
    by (simp add: dict_get_def)
  from repair_restores_closers[OF 1 2 3 4 5 6, of 10 r 5] n g
  have "repair_json (json_content ?x) = json_content ?x @ ''}''"
    and "parse_grading_response ?x 10 = r" and "total_score r = JNum 5" by blast+
  then show ?thesis using 6 c by simp
qed

lemma missing_brace_example:
  assumes "5 \<le> t"
  shows \<open>total_score (parse_grading_response ''{"total_score": 5, "percentage": 50'' t) = JNum 5
       \<and> percentage (parse_grading_response ''{"total_score": 5, "percentage": 50'' t)
           = JNum ((5 / of_int t) * 100)\<close>
proof -
  let ?x = \<open>''{"total_score": 5, "percentage": 50''\<close>
  let ?d = "[(ustr ''total_score'', JNum 5), (ustr ''percentage'', JNum 50)]"
  have c: "json_content ?x = ?x" by (simp add: json_content_def text_eval)
  have 1: "py_find (strip ?x) (CHR ''{'') \<noteq> -1" by (simp add: text_eval)
  have 2: "even (count_list (json_content ?x) dquote)" by (simp add: c dquote_def)
  have 3: "\<forall>c \<in> set ''}''. c = CHR ''}'' \<or> c = CHR '']''" by simp
  have 4: "well_nested (json_content ?x @ ''}'')" by (simp add: c well_nested_def closer_of_def)
  have 5: "json_loads (json_content ?x) = None" by (simp add: c json_eval)
  have 6: "json_loads (json_content ?x @ ''}'') = Some (JObj ?d)" by (simp add: c json_eval)
  have "parse_body ?x t = normalize_result ?d t"
    using parse_body_repaired[OF 1 2 3 4 5 6] by simp
  then show ?thesis using assms
    by (simp add: parse_cases normalize_result_def combine_feedback_def overall_part_def list_part_def
        justification_part_def get_truthy_def dict_get_default_def dict_get_def ustr_def)
qed

section \<open>The dataset built from the records\<close>

lemma map_of_question_cells_attempted:
  "map_of (question_cells i qs) (Q_attempted n) =
     (if i \<le> n \<and> n < i + length qs then Some (Bool (get_or (q_attempted (qs ! (n - i))) False)) else None)"
proof (induction qs arbitrary: i)
  case Nil
  then show ?case by simp
next
  case (Cons q qs)
  show ?case
  proof (cases "n = i")
    case True
    then show ?thesis by simp
  next
    case False
    then show ?thesis using Cons[of "Suc i"] by (auto simp: nth_Cons' Suc_diff_le)
  qed
qed


lemma map_of_student_attempted:
  "map_of (student_data r) (Q_attempted n) =
     (if 1 \<le> n \<and> n \<le> length (questions_of r)
      then Some (Bool (get_or (q_attempted (questions_of r ! (n - 1))) False)) else None)"
  by (auto simp: student_data_def questions_of_def map_of_question_cells_attempted)


lemma map_of_student_base:
  "map_of (student_data r) Percentage = Some (Num (get_or (r_percentage r) 0))"
  "map_of (student_data r) Filename = Some (Str (get_or (r_filename r) []))"
  by (simp_all add: student_data_def)

lemma keys_question_cells:
  "fst ` set (question_cells i qs) =
     (\<Union>n \<in> {i ..< i + length qs}. {Q_attempted n, Q_score n, Q_max_score n, Q_percentage n})"
proof (induction qs arbitrary: i)
  case Nil
  then show ?case by simp
next
  case (Cons q qs)
  have "{i ..< i + length (q # qs)} = insert i {Suc i ..< Suc i + length qs}" by auto
  then show ?case using Cons[of "Suc i"] by (simp add: image_Un)
qed

lemma keys_student_data:
  "fst ` set (student_data r) =
     {Filename, Total_marks, Awarded_marks, Percentage}
     \<union> (\<Union>n \<in> {1 .. length (questions_of r)}. {Q_attempted n, Q_score n, Q_max_score n, Q_percentage n})"
proof -
  have "{1 ..< 1 + length (questions_of r)} = {1 .. length (questions_of r)}" by auto
  then show ?thesis
    by (simp add: student_data_def questions_of_def[symmetric] image_Un keys_question_cells)
qed

lemma set_add_keys: "set (add_keys cols ks) = set cols \<union> set ks"
  by (induction ks arbitrary: cols) auto

lemma distinct_add_keys: "distinct cols \<Longrightarrow> distinct (add_keys cols ks)"
  by (induction ks arbitrary: cols) auto

lemma set_foldl_add_keys: "set (foldl add_keys cols kss) = set cols \<union> \<Union> (set ` set kss)"
  by (induction kss arbitrary: cols) (auto simp: set_add_keys)

lemma distinct_foldl_add_keys: "distinct cols \<Longrightarrow> distinct (foldl add_keys cols kss)"
  by (induction kss arbitrary: cols) (auto simp: distinct_add_keys)

lemma columns_DataFrame:
  "set (columns (DataFrame data)) = (\<Union>r \<in> set data. fst ` set r)"
  "distinct (columns (DataFrame data))"
  by (auto simp: DataFrame_def set_foldl_add_keys distinct_foldl_add_keys)

lemma max_question_count_ge: "r \<in> set rs \<Longrightarrow> length (questions_of r) \<le> max_question_count rs"
  by (induction rs) (auto simp: max_question_count_def)

lemma max_question_count_attained:
  "rs \<noteq> [] \<Longrightarrow> \<exists>r \<in> set rs. length (questions_of r) = max_question_count rs"
proof (induction rs)
  case Nil
  then show ?case by simp
next
  case (Cons r rs)
  show ?case
  proof (cases "rs = []")
    case True
    then show ?thesis by (simp add: max_question_count_def)
  next
    case False
    then obtain r' where "r' \<in> set rs" "length (questions_of r') = max_question_count rs"
      using Cons by blast
    then show ?thesis by (auto simp: max_question_count_def max_def)
  qed
qed

lemma loaded_frame:
  assumes "rs \<noteq> []"
  shows "\<not> no_data (load_results self rs)"
    and "frame (load_results self rs) = DataFrame (map student_data rs)"
    and "rows (frame (load_results self rs)) = map student_data rs"
proof -
  have f: "frame (load_results self rs) = DataFrame (map student_data rs)"
    using assms by (simp add: frame_def load_results_def create_dataframe_def)
  obtain r where "r \<in> set rs" using assms by (cases rs) auto
  then have "Filename \<in> set (columns (DataFrame (map student_data rs)))"
    by (auto simp: columns_DataFrame keys_student_data)
  then show "\<not> no_data (load_results self rs)"
    using assms by (auto simp: no_data_def load_results_def create_dataframe_def df_empty_def DataFrame_def)
  show "frame (load_results self rs) = DataFrame (map student_data rs)" by (rule f)
  show "rows (frame (load_results self rs)) = map student_data rs" by (simp add: f DataFrame_def)
qed

lemma loaded_columns:
  assumes "rs \<noteq> []"
  shows "set (columns (frame (load_results self rs))) =
     {Filename, Total_marks, Awarded_marks, Percentage}
     \<union> (\<Union>n \<in> {1 .. max_question_count rs}. {Q_attempted n, Q_score n, Q_max_score n, Q_percentage n})"
    (is "?L = ?R")
proof
  show "?L \<subseteq> ?R"
  proof
    fix c assume "c \<in> ?L"
    then obtain r where r: "r \<in> set rs" and c: "c \<in> fst ` set (student_data r)"
      by (auto simp: loaded_frame(2)[OF assms] columns_DataFrame)
    have "{1 .. length (questions_of r)} \<subseteq> {1 .. max_question_count rs}"
      using max_question_count_ge[OF r] by simp
    then show "c \<in> ?R" using c unfolding keys_student_data by blast
  qed
  obtain r1 where r1: "r1 \<in> set rs" using assms by (cases rs) auto
  obtain r where r: "r \<in> set rs" "length (questions_of r) = max_question_count rs"
    using max_question_count_attained[OF assms] by blast
  show "?R \<subseteq> ?L"
  proof
    fix c assume "c \<in> ?R"
    then have "c \<in> fst ` set (student_data r1) \<or> c \<in> fst ` set (student_data r)"
      using r(2) by (auto simp: keys_student_data)
    then show "c \<in> ?L"
      using r1 r(1) by (auto simp: loaded_frame(2)[OF assms] columns_DataFrame)
  qed
qed

lemma loaded_max_questions:
  "get_max_questions (load_results self rs) = max_question_count rs"
proof (cases "rs = []")
  case True
  then show ?thesis
    by (simp add: get_max_questions_def no_data_def load_results_def create_dataframe_def
        empty_frame_def df_empty_def max_question_count_def)
next
  case False
  let ?cols = "columns (frame (load_results self rs))"
  have d: "distinct ?cols" by (simp add: loaded_frame(2)[OF False] columns_DataFrame)
  have "set (filter is_attempted_column ?cols) = Q_attempted ` {1 .. max_question_count rs}"
    by (auto simp: loaded_columns[OF False])
  moreover have "distinct (filter is_attempted_column ?cols)" using d by simp
  ultimately have "length (filter is_attempted_column ?cols) = card (Q_attempted ` {1 .. max_question_count rs})"
    using distinct_card by metis
  also have "\<dots> = max_question_count rs"
    by (simp add: card_image inj_on_def)
  finally show ?thesis using loaded_frame(1)[OF False] by (simp add: get_max_questions_def)
qed

section \<open>Attempts\<close>

lemma nums_notna_bools:
  assumes "\<forall>c \<in> set cs. c = None \<or> (\<exists>b. c = Some (Bool b))"
  shows "\<exists>xs. nums_notna cs = Inr xs
          \<and> sum_list xs = of_nat (length (filter (\<lambda>c. c = Some (Bool True)) cs))"
  using assms
proof (induction cs)
  case Nil
  then show ?case by simp
next
  case (Cons c cs)
  then obtain xs where xs: "nums_notna cs = Inr xs"
    "sum_list xs = of_nat (length (filter (\<lambda>c. c = Some (Bool True)) cs))" by auto
  consider "c = None" | b where "c = Some (Bool b)" using Cons.prems by auto
  then show ?case
  proof cases
    case 1
    then show ?thesis using xs by simp
  next
    case 2
    then show ?thesis using xs by (cases b) simp_all
  qed
qed

lemma series_sum_bools:
  assumes "\<forall>c \<in> set cs. c = None \<or> (\<exists>b. c = Some (Bool b))"
  shows "series_sum cs = Inr (of_nat (length (filter (\<lambda>c. c = Some (Bool True)) cs)))"
  using nums_notna_bools[OF assms] by (auto simp: series_sum_def)

lemma attempted_cell_True:
  "map_of (student_data r) (Q_attempted n) = Some (Bool True) \<longleftrightarrow> attempted_at r n"
  by (cases "q_attempted (questions_of r ! (n - 1))")
     (auto simp: map_of_student_attempted attempted_at_def get_or_def)

lemma attempted_column_sum:
  "series_sum (map (\<lambda>r. map_of (student_data r) (Q_attempted n)) rs) = Inr (of_nat (attempted_total rs n))"
proof -
  have "\<forall>c \<in> set (map (\<lambda>r. map_of (student_data r) (Q_attempted n)) rs). c = None \<or> (\<exists>b. c = Some (Bool b))"
    by (auto simp: map_of_student_attempted)
  then have "series_sum (map (\<lambda>r. map_of (student_data r) (Q_attempted n)) rs)
      = Inr (of_nat (length (filter (\<lambda>c. c = Some (Bool True))
                        (map (\<lambda>r. map_of (student_data r) (Q_attempted n)) rs))))"
    by (rule series_sum_bools)
  also have "length (filter (\<lambda>c. c = Some (Bool True)) (map (\<lambda>r. map_of (student_data r) (Q_attempted n)) rs))
      = attempted_total rs n"
    by (simp add: filter_map comp_def attempted_cell_True attempted_total_def)
  finally show ?thesis .
qed

lemma py_trunc_of_nat: "py_trunc (of_nat k) = int k"
  by (simp add: py_trunc_def)

lemma attempted_total_absent:
  assumes "\<not> (1 \<le> n \<and> n \<le> max_question_count rs)"
  shows "attempted_total rs n = 0"
proof -
  have "\<not> attempted_at r n" if "r \<in> set rs" for r
    using assms max_question_count_ge[OF that] by (auto simp: attempted_at_def)
  then show ?thesis by (simp add: attempted_total_def)
qed

lemma analyze_loaded:
  "analyze_question_attempts (load_results self rs) n =
     Inr \<lparr> attempted_count = int (attempted_total rs n),
           total_students = length rs,
           attempts_percentage =
             (if rs \<noteq> [] then (of_nat (attempted_total rs n) / of_nat (length rs)) * 100 else 0) \<rparr>"
proof (cases "rs = []")
  case True
  then show ?thesis
    by (simp add: analyze_question_attempts_def no_data_def load_results_def create_dataframe_def
        empty_frame_def df_empty_def attempted_total_def)
next
  case False
  note lf = loaded_frame[OF False, of self]
  show ?thesis
  proof (cases "1 \<le> n \<and> n \<le> max_question_count rs")
    case True
    then have c: "Q_attempted n \<in> set (columns (frame (load_results self rs)))"
      by (auto simp: loaded_columns[OF False])
    then have "df_col (frame (load_results self rs)) (Q_attempted n)
        = Inr (map (\<lambda>r. map_of (student_data r) (Q_attempted n)) rs)"
      by (simp add: df_col_def lf(3) comp_def)
    then show ?thesis
      using c lf(1) False
      by (simp add: analyze_question_attempts_def attempted_column_sum lf(3) py_trunc_of_nat Let_def)
  next
    case False
    then have c: "Q_attempted n \<notin> set (columns (frame (load_results self rs)))"
      using \<open>rs \<noteq> []\<close> by (auto simp: loaded_columns)
    show ?thesis
      using c lf(1) attempted_total_absent[OF False]
      by (simp add: analyze_question_attempts_def lf(3) Let_def)
  qed
qed

text \<open>
  Claim C4. The format that the grading prompt requests for a question has no key
  \<open>attempted\<close>. For a question without that key, \<open>_create_dataframe\<close> records
  \<open>question_i_attempted = False\<close>. \<open>analyze_question_attempts\<close> on the loaded records
  returns, as attempted count, the number of records whose question \<open>n\<close> has the key
  \<open>attempted\<close> with the value true; so it is 0 when no question of any record has the
  key, whatever the scores are.
\<close>

theorem missing_attempted_key:
  "''attempted'' \<notin> set prompt_question_keys
   \<and> (1 \<le> i \<and> i \<le> length (questions_of r) \<and> q_attempted (questions_of r ! (i - 1)) = None \<longrightarrow>
        map_of (student_data r) (Q_attempted i) = Some (Bool False))
   \<and> (\<exists>a. analyze_question_attempts (load_results self rs) n = Inr a
          \<and> attempted_count a = int (attempted_total rs n)
          \<and> ((\<forall>r \<in> set rs. \<forall>q \<in> set (questions_of r). q_attempted q = None) \<longrightarrow> attempted_count a = 0))"
proof (intro conjI impI)
  show "''attempted'' \<notin> set prompt_question_keys" by (simp add: prompt_question_keys_def)
next
  assume "1 \<le> i \<and> i \<le> length (questions_of r) \<and> q_attempted (questions_of r ! (i - 1)) = None"
  then show "map_of (student_data r) (Q_attempted i) = Some (Bool False)"
    by (simp add: map_of_student_attempted get_or_def)
next
  have "attempted_total rs n = 0"
    if "\<forall>r \<in> set rs. \<forall>q \<in> set (questions_of r). q_attempted q = None"
  proof -
    have "\<not> attempted_at r n" if r: "r \<in> set rs" for r
    proof
      assume a: "attempted_at r n"
      then have "questions_of r ! (n - 1) \<in> set (questions_of r)"
        by (auto simp: attempted_at_def intro!: nth_mem)
      then show False using a r \<open>\<forall>r \<in> set rs. \<forall>q \<in> set (questions_of r). q_attempted q = None\<close>
        by (auto simp: attempted_at_def)
    qed
    then show ?thesis by (simp add: attempted_total_def)
  qed
  then show "\<exists>a. analyze_question_attempts (load_results self rs) n = Inr a
          \<and> attempted_count a = int (attempted_total rs n)
          \<and> ((\<forall>r \<in> set rs. \<forall>q \<in> set (questions_of r). q_attempted q = None) \<longrightarrow> attempted_count a = 0)"
    by (simp add: analyze_loaded)
qed

theorem missing_attempted_key_witness:
  "map_of (student_data (record_with ''a.pdf'' 90 [scored_question 9 10])) (Q_attempted 1) = Some (Bool False)
   \<and> (\<exists>a. analyze_question_attempts
             (load_results init_service [record_with ''a.pdf'' 90 [scored_question 9 10]]) 1 = Inr a
          \<and> attempted_count a = 0)"
proof -
  let ?r = "record_with ''a.pdf'' 90 [scored_question 9 10]"
  have 1: "1 \<le> (1::nat) \<and> 1 \<le> length (questions_of ?r) \<and> q_attempted (questions_of ?r ! (1 - 1)) = None"
    by (simp add: questions_of_def record_with_def get_or_def scored_question_def)
  have 2: "\<forall>r \<in> set [?r]. \<forall>q \<in> set (questions_of r). q_attempted q = None"
    by (simp add: questions_of_def record_with_def get_or_def scored_question_def)
  from missing_attempted_key[of 1 ?r init_service "[?r]" 1] 1 2
  show ?thesis by blast
qed

section \<open>Queries on an empty dataset\<close>

lemma no_data_init: "no_data init_service"
  by (simp add: no_data_def init_service_def)

lemma no_data_load_empty: "no_data (load_results self [])"
  by (simp add: no_data_def load_results_def create_dataframe_def empty_frame_def df_empty_def)

text \<open>
  Claim C5. On a service into which no record was loaded (never loaded, or loaded with the
  empty list) each of the eight queries returns its zero or empty default, and none
  raises; \<open>get_max_questions\<close> is 0.
\<close>

theorem empty_dataset_defaults:
  assumes "self = init_service \<or> self = load_results s0 []"
  shows "analyze_question_attempts self n
           = Inr \<lparr> attempted_count = 0, total_students = 0, attempts_percentage = 0 \<rparr>
       \<and> get_most_attempted_question self
           = Inr \<lparr> question_number = 0, stat_count = 0, stat_percentage = 0 \<rparr>
       \<and> get_most_skipped_question self
           = Inr \<lparr> question_number = 0, stat_count = 0, stat_percentage = 0 \<rparr>
       \<and> get_average_questions_attempted self = Inr 0
       \<and> get_grade_distribution self
           = Inr \<lparr> grades = [], average = 0, dist_median = 0, std_dev = 0 \<rparr>
       \<and> get_consistent_performers self = Inr []
       \<and> get_inconsistent_performers self = Inr []
       \<and> get_above_average_percentage self
           = Inr \<lparr> above_percentage = 0, above_count = 0, above_total = 0, class_average = 0 \<rparr>
       \<and> get_max_questions self = 0"
proof -
  have "no_data self" using assms no_data_init no_data_load_empty by auto
  then show ?thesis
    by (simp add: analyze_question_attempts_def get_most_attempted_question_def
        get_most_skipped_question_def get_average_questions_attempted_def
        get_grade_distribution_def get_consistent_performers_def get_inconsistent_performers_def
        get_above_average_percentage_def get_max_questions_def no_question_def)
qed

theorem empty_dataset_defaults_witness:
  "get_grade_distribution init_service
     = Inr \<lparr> grades = [], average = 0, dist_median = 0, std_dev = 0 \<rparr>
   \<and> get_consistent_performers (load_results init_service []) = Inr []
   \<and> analyze_question_attempts (load_results init_service []) 3
       = Inr \<lparr> attempted_count = 0, total_students = 0, attempts_percentage = 0 \<rparr>"
  using empty_dataset_defaults[of init_service init_service 3]
    empty_dataset_defaults[of "load_results init_service []" init_service 3]
  by blast

section \<open>The most attempted and the most skipped question\<close>

lemma max_from_first:
  "\<exists>i < length (b # xs). max_from k b xs = (b # xs) ! i
     \<and> (\<forall>j < length (b # xs). k ((b # xs) ! j) \<le> k ((b # xs) ! i))
     \<and> (\<forall>j < i. k ((b # xs) ! j) < k ((b # xs) ! i))"
proof (induction xs arbitrary: b rule: rev_induct)
  case Nil
  then show ?case by simp
next
  case (snoc x xs)
  have mf: "max_from k b (xs @ [x]) = (if k x > k (max_from k b xs) then x else max_from k b xs)" for b
    by (induction xs arbitrary: b) simp_all
  obtain i where i: "i < length (b # xs)" "max_from k b xs = (b # xs) ! i"
    "\<forall>j < length (b # xs). k ((b # xs) ! j) \<le> k ((b # xs) ! i)"
    "\<forall>j < i. k ((b # xs) ! j) < k ((b # xs) ! i)"
    using snoc by blast
  let ?l = "b # xs @ [x]"
  have pre: "?l ! j = (b # xs) ! j" if "j < length (b # xs)" for j
    using that by (metis append_Cons nth_append)
  have lst: "?l ! length (b # xs) = x" by (metis append_Cons nth_append_length)
  show ?case
  proof (cases "k x > k (max_from k b xs)")
    case True
    have "\<forall>j < length ?l. k (?l ! j) \<le> k x"
    proof (intro allI impI)
      fix j assume "j < length ?l"
      then consider "j < length (b # xs)" | "j = length (b # xs)" by fastforce
      then show "k (?l ! j) \<le> k x"
      proof cases
        case 1
        then show ?thesis using pre[OF 1] i(2,3) True by fastforce
      next
        case 2
        then show ?thesis using lst by simp
      qed
    qed
    moreover have "\<forall>j < length (b # xs). k (?l ! j) < k x"
      using pre i(2,3) True by fastforce
    ultimately show ?thesis
      using True lst by (intro exI[of _ "length (b # xs)"]) (simp add: mf)
  next
    case False
    have "\<forall>j < length ?l. k (?l ! j) \<le> k ((b # xs) ! i)"
    proof (intro allI impI)
      fix j assume "j < length ?l"
      then consider "j < length (b # xs)" | "j = length (b # xs)" by fastforce
      then show "k (?l ! j) \<le> k ((b # xs) ! i)"
      proof cases
        case 1
        then show ?thesis using pre[OF 1] i(3) by simp
      next
        case 2
        then show ?thesis using lst False i(2) by simp
      qed
    qed
    moreover have "\<forall>j < i. k (?l ! j) < k ((b # xs) ! i)"
      using pre i(1,4) by simp
    moreover have "?l ! i = (b # xs) ! i" using pre[OF i(1)] .
    ultimately show ?thesis
      using False i(1,2) by (intro exI[of _ i]) (simp add: mf)
  qed
qed

lemma collect_total:
  assumes "\<And>i. f i = Inr (g i)"
  shows "collect f is = Inr (map g is)"
  by (induction "is") (simp_all add: assms)

lemma first_maximum_of_entries:
  assumes m: "0 < m"
    and c: "collect f [1 ..< m + 1] = Inr (map g [1 ..< m + 1])"
    and qn: "\<And>i. question_number (g i) = i"
  shows "\<exists>q. (case collect f [1 ..< m + 1] of
                 Inl e \<Rightarrow> Inl e
               | Inr [] \<Rightarrow> Inr no_question
               | Inr (x # xs) \<Rightarrow> Inr (max_from stat_count x xs)) = Inr q
          \<and> q = g (question_number q)
          \<and> 1 \<le> question_number q \<and> question_number q \<le> m
          \<and> (\<forall>j. 1 \<le> j \<and> j \<le> m \<longrightarrow> stat_count (g j) \<le> stat_count q)
          \<and> (\<forall>j. 1 \<le> j \<and> j < question_number q \<longrightarrow> stat_count (g j) < stat_count q)"
proof -
  let ?L = "map g [1 ..< m + 1]"
  have len: "length ?L = m" by simp
  then obtain b xs where L: "?L = b # xs" using m by (cases ?L) auto
  have nth: "(b # xs) ! j = g (Suc j)" if "j < m" for j
  proof -
    have "?L ! j = g ([1 ..< m + 1] ! j)" using that by (simp del: upt_Suc)
    also have "[1 ..< m + 1] ! j = Suc j" using that by (simp del: upt_Suc)
    finally show ?thesis using L by simp
  qed
  have lb: "length (b # xs) = m" using L len by metis
  obtain i where i: "i < m" "max_from stat_count b xs = (b # xs) ! i"
    "\<forall>j < m. stat_count ((b # xs) ! j) \<le> stat_count ((b # xs) ! i)"
    "\<forall>j < i. stat_count ((b # xs) ! j) < stat_count ((b # xs) ! i)"
    using max_from_first[of b xs stat_count] lb by auto
  let ?q = "g (Suc i)"
  have r: "max_from stat_count b xs = ?q" using i(1,2) nth by simp
  have 1: "(case collect f [1 ..< m + 1] of
                 Inl e \<Rightarrow> Inl e
               | Inr [] \<Rightarrow> Inr no_question
               | Inr (x # xs) \<Rightarrow> Inr (max_from stat_count x xs)) = Inr ?q"
    using c L r by simp
  have 2: "\<forall>j. 1 \<le> j \<and> j \<le> m \<longrightarrow> stat_count (g j) \<le> stat_count ?q"
  proof (intro allI impI)
    fix j assume j: "1 \<le> j \<and> j \<le> m"
    then have jm: "j - 1 < m" by linarith
    have e: "(b # xs) ! (j - 1) = g j" using nth[OF jm] j by simp
    have "stat_count ((b # xs) ! (j - 1)) \<le> stat_count ((b # xs) ! i)" using i(3) jm by blast
    then show "stat_count (g j) \<le> stat_count ?q"
      using nth[OF i(1)] by (simp only: e)
  qed
  have 3: "\<forall>j. 1 \<le> j \<and> j < question_number ?q \<longrightarrow> stat_count (g j) < stat_count ?q"
  proof (intro allI impI)
    fix j assume j: "1 \<le> j \<and> j < question_number ?q"
    then have ji: "j - 1 < i" unfolding qn by linarith
    then have jm: "j - 1 < m" using i(1) by linarith
    have e: "(b # xs) ! (j - 1) = g j" using nth[OF jm] j by simp
    have "stat_count ((b # xs) ! (j - 1)) < stat_count ((b # xs) ! i)" using i(4) ji by blast
    then show "stat_count (g j) < stat_count ?q"
      using nth[OF i(1)] by (simp only: e)
  qed
  show ?thesis using 1 2 3 i(1) by (intro exI[of _ ?q]) (simp add: qn)
qed

text \<open>
  Claim C7. On loaded records with at least one question, \<open>max_questions\<close> is the
  largest number of questions of a record; \<open>get_most_attempted_question\<close> returns a
  question between 1 and \<open>max_questions\<close> whose attempted count is the greatest of all
  these questions and strictly greater than that of every question before it (ties go to
  the smallest index); \<open>get_most_skipped_question\<close> does the same with the skipped
  counts, the number of records less the attempted count.
\<close>

theorem most_attempted_first_maximum:
  assumes "0 < max_question_count rs"
  shows "get_max_questions (load_results self rs) = max_question_count rs
       \<and> (\<exists>q. get_most_attempted_question (load_results self rs) = Inr q
              \<and> 1 \<le> question_number q \<and> question_number q \<le> max_question_count rs
              \<and> stat_count q = int (attempted_total rs (question_number q))
              \<and> (\<forall>j. 1 \<le> j \<and> j \<le> max_question_count rs \<longrightarrow>
                     int (attempted_total rs j) \<le> stat_count q)
              \<and> (\<forall>j. 1 \<le> j \<and> j < question_number q \<longrightarrow>
                     int (attempted_total rs j) < stat_count q))
       \<and> (\<exists>q. get_most_skipped_question (load_results self rs) = Inr q
              \<and> 1 \<le> question_number q \<and> question_number q \<le> max_question_count rs
              \<and> stat_count q = skipped_total rs (question_number q)
              \<and> (\<forall>j. 1 \<le> j \<and> j \<le> max_question_count rs \<longrightarrow>
                     skipped_total rs j \<le> stat_count q)
              \<and> (\<forall>j. 1 \<le> j \<and> j < question_number q \<longrightarrow>
                     skipped_total rs j < stat_count q))"
proof -
  let ?svc = "load_results self rs"
  let ?m = "max_question_count rs"
  have ne: "rs \<noteq> []" using assms by (auto simp: max_question_count_def)
  have nd: "\<not> no_data ?svc" using loaded_frame(1)[OF ne] .
  have mq: "get_max_questions ?svc = ?m" by (rule loaded_max_questions)
  define ga where "ga i = \<lparr> question_number = i, stat_count = int (attempted_total rs i),
      stat_percentage = (of_nat (attempted_total rs i) / of_nat (length rs)) * 100 \<rparr>" for i
  define gs where "gs i = \<lparr> question_number = i, stat_count = skipped_total rs i,
      stat_percentage = (of_int (skipped_total rs i) / of_nat (length rs)) * 100 \<rparr>" for i
  have fa: "attempt_entry ?svc i = Inr (ga i)" for i
    using ne by (simp add: attempt_entry_def analyze_loaded ga_def)
  have fs: "skip_entry ?svc i = Inr (gs i)" for i
    using ne by (simp add: skip_entry_def analyze_loaded gs_def skipped_total_def Let_def)
  have ca: "collect (attempt_entry ?svc) [1 ..< ?m + 1] = Inr (map ga [1 ..< ?m + 1])"
    using fa by (rule collect_total)
  have cs: "collect (skip_entry ?svc) [1 ..< ?m + 1] = Inr (map gs [1 ..< ?m + 1])"
    using fs by (rule collect_total)
  have qa: "question_number (ga i) = i" for i by (simp add: ga_def)
  have qs: "question_number (gs i) = i" for i by (simp add: gs_def)
  have A: "get_most_attempted_question ?svc =
      (case collect (attempt_entry ?svc) [1 ..< ?m + 1] of
         Inl e \<Rightarrow> Inl e | Inr [] \<Rightarrow> Inr no_question
       | Inr (x # xs) \<Rightarrow> Inr (max_from stat_count x xs))"
    using nd mq assms by (simp add: get_most_attempted_question_def Let_def)
  have S: "get_most_skipped_question ?svc =
      (case collect (skip_entry ?svc) [1 ..< ?m + 1] of
         Inl e \<Rightarrow> Inl e | Inr [] \<Rightarrow> Inr no_question
       | Inr (x # xs) \<Rightarrow> Inr (max_from stat_count x xs))"
    using nd mq assms by (simp add: get_most_skipped_question_def Let_def)
  obtain q where q: "get_most_attempted_question ?svc = Inr q" "q = ga (question_number q)"
    "1 \<le> question_number q" "question_number q \<le> ?m"
    "\<forall>j. 1 \<le> j \<and> j \<le> ?m \<longrightarrow> stat_count (ga j) \<le> stat_count q"
    "\<forall>j. 1 \<le> j \<and> j < question_number q \<longrightarrow> stat_count (ga j) < stat_count q"
    using first_maximum_of_entries[OF assms ca qa] unfolding A[symmetric] by blast
  obtain p where p: "get_most_skipped_question ?svc = Inr p" "p = gs (question_number p)"
    "1 \<le> question_number p" "question_number p \<le> ?m"
    "\<forall>j. 1 \<le> j \<and> j \<le> ?m \<longrightarrow> stat_count (gs j) \<le> stat_count p"
    "\<forall>j. 1 \<le> j \<and> j < question_number p \<longrightarrow> stat_count (gs j) < stat_count p"
    using first_maximum_of_entries[OF assms cs qs] unfolding S[symmetric] by blast
  have sa: "stat_count (ga j) = int (attempted_total rs j)" for j by (simp add: ga_def)
  have ss: "stat_count (gs j) = skipped_total rs j" for j by (simp add: gs_def)
  have qc: "stat_count q = int (attempted_total rs (question_number q))"
    using q(2) sa by metis
  have pc: "stat_count p = skipped_total rs (question_number p)"
    using p(2) ss by metis
  have "\<exists>q. get_most_attempted_question ?svc = Inr q
              \<and> 1 \<le> question_number q \<and> question_number q \<le> ?m
              \<and> stat_count q = int (attempted_total rs (question_number q))
              \<and> (\<forall>j. 1 \<le> j \<and> j \<le> ?m \<longrightarrow> int (attempted_total rs j) \<le> stat_count q)
              \<and> (\<forall>j. 1 \<le> j \<and> j < question_number q \<longrightarrow> int (attempted_total rs j) < stat_count q)"
    using q(1,3,4,5,6) qc unfolding sa by (intro exI[of _ q]) simp
  moreover have "\<exists>q. get_most_skipped_question ?svc = Inr q
              \<and> 1 \<le> question_number q \<and> question_number q \<le> ?m
              \<and> stat_count q = skipped_total rs (question_number q)
              \<and> (\<forall>j. 1 \<le> j \<and> j \<le> ?m \<longrightarrow> skipped_total rs j \<le> stat_count q)
              \<and> (\<forall>j. 1 \<le> j \<and> j < question_number q \<longrightarrow> skipped_total rs j < stat_count q)"
    using p(1,3,4,5,6) pc unfolding ss by (intro exI[of _ p]) simp
  ultimately show ?thesis using mq by blast
qed

theorem most_attempted_first_maximum_witness:
  "0 < max_question_count
         [record_with ''a'' 50 [attempted_question True, attempted_question False],
          record_with ''b'' 50 [attempted_question False, attempted_question True]]
   \<and> (\<exists>q. get_most_attempted_question
             (load_results init_service
                [record_with ''a'' 50 [attempted_question True, attempted_question False],
                 record_with ''b'' 50 [attempted_question False, attempted_question True]]) = Inr q
          \<and> question_number q = 1 \<and> stat_count q = 1)"
proof -
  let ?rs = "[record_with ''a'' 50 [attempted_question True, attempted_question False],
              record_with ''b'' 50 [attempted_question False, attempted_question True]]"
  have m: "max_question_count ?rs = 2"
    by (simp add: max_question_count_def questions_of_def record_with_def get_or_def)
  have a1: "attempted_total ?rs 1 = 1" and a2: "attempted_total ?rs 2 = 1"
    by (simp_all add: attempted_total_def attempted_at_def questions_of_def record_with_def
        get_or_def attempted_question_def)
  have pos: "0 < max_question_count ?rs" using m by simp
  obtain q where q: "get_most_attempted_question (load_results init_service ?rs) = Inr q"
    "1 \<le> question_number q" "question_number q \<le> max_question_count ?rs"
    "stat_count q = int (attempted_total ?rs (question_number q))"
    "\<forall>j. 1 \<le> j \<and> j < question_number q \<longrightarrow> int (attempted_total ?rs j) < stat_count q"
    using most_attempted_first_maximum[OF pos, of init_service] by blast
  have "question_number q = 1 \<or> question_number q = 2" using q(2,3) m by linarith
  then have "question_number q = 1"
  proof
    assume "question_number q = 1" then show ?thesis .
  next
    assume 2: "question_number q = 2"
    then have "int (attempted_total ?rs 1) < stat_count q" using q(5) by simp
    then show ?thesis using q(4) 2 a1 a2 by simp
  qed
  then show ?thesis using q(1,4) a1 pos by auto
qed

section \<open>Consistent performers\<close>

lemma nums_notna_missing: "nums_notna (map (\<lambda>i. None) is) = Inr []"
  by (induction "is") simp_all

lemma nums_notna_present:
  "nums_notna (map (\<lambda>x. Some (Num x)) xs @ map (\<lambda>i. None) is) = Inr xs"
  by (induction xs) (simp_all add: nums_notna_missing)









section \<open>The grade distribution\<close>

lemma loaded_percentages:
  assumes "rs \<noteq> []"
  shows "percentages_of (frame (load_results self rs)) = Inr (percentages_in rs)"
proof -
  have c: "Percentage \<in> set (columns (frame (load_results self rs)))"
    by (simp add: loaded_columns[OF assms])
  have "nums_notna (map (\<lambda>r. Some (Num (get_or (r_percentage r) 0))) rs) = Inr (percentages_in rs)"
    using nums_notna_present[of "percentages_in rs" "[]"]
    by (simp add: percentages_in_def comp_def)
  then show ?thesis
    using c by (simp add: percentages_of_def df_col_def loaded_frame(3)[OF assms] map_of_student_base comp_def)
qed

lemma loaded_grade_distribution:
  assumes "rs \<noteq> []"
  shows "get_grade_distribution (load_results self rs) =
     Inr \<lparr> grades = grade_counts (percentages_in rs),
           average = mean (percentages_in rs),
           dist_median = median (percentages_in rs),
           std_dev = std (percentages_in rs) \<rparr>"
  using assms loaded_frame(1)[OF assms, of self]
  by (simp add: get_grade_distribution_def loaded_percentages percentages_in_def)

lemma grade_counts_example:
  "grade_counts [90, 70, 50] =
     [(''A (90-100%)'', 1), (''B (80-89%)'', 0), (''C (70-79%)'', 1), (''D (60-69%)'', 0), (''F (0-59%)'', 1)]"
  by (simp add: grade_counts_def grade_ranges_def)

lemma statistics_example:
  "mean [90, 70, 50] = 70" "median [90, 70, 50] = 70" "std [90, 70, 50] = sqrt (800 / 3)"
  by (simp_all add: mean_def median_def std_def power2_eq_square)

text \<open>
  The example of the spec: three records with the percentages 90, 70 and 50 give the counts
  A: 1, C: 1, F: 1, the mean 70 and the median 70; the standard deviation is the population
  one. Percentages that are whole numbers between 0 and 100 fall in exactly one bucket.
\<close>

lemma spec_example_distribution:
  "get_grade_distribution (load_results self [graded 90, graded 70, graded 50]) =
     Inr \<lparr> grades = [(''A (90-100%)'', 1), (''B (80-89%)'', 0), (''C (70-79%)'', 1),
                      (''D (60-69%)'', 0), (''F (0-59%)'', 1)],
           average = 70, dist_median = 70, std_dev = sqrt (800 / 3) \<rparr>"
proof -
  have p: "percentages_in [graded 90, graded 70, graded 50] = [90, 70, 50]"
    by (simp add: percentages_in_def graded_def get_or_def)
  show ?thesis
    by (simp add: loaded_grade_distribution p grade_counts_example statistics_example)
qed

lemma whole_percentages_partitioned:
  assumes "\<forall>p \<in> set ps. p \<in> \<int> \<and> 0 \<le> p \<and> p \<le> 100"
  shows "sum_list (map snd (grade_counts ps)) = length ps"
  using assms
proof (induction ps)
  case Nil
  then show ?case by (simp add: grade_counts_def grade_ranges_def)
next
  case (Cons p ps)
  then obtain k :: int where k: "p = of_int k" "0 \<le> k" "k \<le> 100"
    by (auto elim!: Ints_cases)
  have ih: "sum_list (map snd (grade_counts ps)) = length ps" using Cons by simp
  have "(90 \<le> k \<and> k \<le> 100) \<or> (80 \<le> k \<and> k \<le> 89) \<or> (70 \<le> k \<and> k \<le> 79)
      \<or> (60 \<le> k \<and> k \<le> 69) \<or> (0 \<le> k \<and> k \<le> 59)"
    using k(2,3) by linarith
  then show ?case
    using ih k(1) by (auto simp: grade_counts_def grade_ranges_def)
qed

text \<open>
  Claim C3 says that the buckets partition the percentages between 0 and 100. The bounds
  of the buckets are the whole numbers 90..100, 80..89, 70..79, 60..69 and 0..59,
  compared with \<open>min_val <= p <= max_val\<close>: a percentage strictly between 89 and 90
  (or 79 and 80, and so on) is counted in no bucket. For three records with the
  percentages 89.5 (179 marks of 200), 70 and 50 the counts add up to 2.
\<close>

theorem half_point_in_no_bucket:
  "get_grade_distribution (load_results init_service [graded (179 / 2), graded 70, graded 50]) =
     Inr \<lparr> grades = [(''A (90-100%)'', 0), (''B (80-89%)'', 0), (''C (70-79%)'', 1),
                      (''D (60-69%)'', 0), (''F (0-59%)'', 1)],
           average = mean [179 / 2, 70, 50],
           dist_median = median [179 / 2, 70, 50],
           std_dev = std [179 / 2, 70, 50] \<rparr>
   \<and> sum_list (map snd (grade_counts [179 / 2, 70, 50])) = 2
   \<and> length [179 / 2, 70, 50 :: real] = 3"
proof -
  have p: "percentages_in [graded (179 / 2), graded 70, graded 50] = [179 / 2, 70, 50]"
    by (simp add: percentages_in_def graded_def get_or_def)
  have g: "grade_counts [179 / 2, 70, 50] =
     [(''A (90-100%)'', 0), (''B (80-89%)'', 0), (''C (70-79%)'', 1), (''D (60-69%)'', 0), (''F (0-59%)'', 1)]"
    by (simp add: grade_counts_def grade_ranges_def)
  show ?thesis by (simp add: loaded_grade_distribution p g)
qed

end
